theory Spec2Isabelle
  imports Complex_Main "HOL-Library.Multiset" "HOL-Library.Log_Nat"
begin

section \<open>Vocabulary store and random choices\<close>

text \<open>
  A row of the \<^verbatim>\<open>words\<close> table (database/models.py, \<^verbatim>\<open>create_words_table\<close>).
  Only the columns read by the quiz code are kept; \<^verbatim>\<open>id\<close> is the primary key.
  Python and SQLite strings are byte strings in UTF-8; only their equality matters here.
\<close>

record word_row =
  w_id :: int
  greek :: string
  russian :: string
  word_type :: string

text \<open>The primary key: no two rows of the table share an id.\<close>

definition wf_words :: "word_row list \<Rightarrow> bool" where
  "wf_words db = distinct (map w_id db)"

datatype py_error = ValueError | IndexError | IntegrityError

text \<open>
  Every random choice of the program (\<^verbatim>\<open>ORDER BY RANDOM()\<close>, \<^verbatim>\<open>random.shuffle\<close>,
  \<^verbatim>\<open>random.choice\<close>) is driven by an explicit argument. A list of numbers selects an
  ordering of a list: each number picks the next element among those not yet taken.
  Every ordering of the list is selected by some list of numbers and nothing else is
  (lemmas \<open>mset_random_order\<close> and \<open>random_order_complete\<close>).
\<close>

function random_order :: "nat list \<Rightarrow> 'a list \<Rightarrow> 'a list" where
  "random_order rs [] = []"
| "random_order [] (x # xs) = x # xs"
| "random_order (r # rs) (x # xs) =
     (let i = r mod length (x # xs)
      in (x # xs) ! i # random_order rs (take i (x # xs) @ drop (Suc i) (x # xs)))"
  by pat_completeness auto
termination
  by (relation "measure (\<lambda>(rs, xs). length xs)") auto

text \<open>\<^verbatim>\<open>SELECT ... WHERE p ORDER BY RANDOM() LIMIT n\<close> over a table.\<close>

definition select_random :: "nat list \<Rightarrow> ('a \<Rightarrow> bool) \<Rightarrow> nat \<Rightarrow> 'a list \<Rightarrow> 'a list" where
  "select_random rs p n tbl = take n (random_order rs (filter p tbl))"

text \<open>The random choices made by one call of \<^verbatim>\<open>generate_quiz\<close>, in program order.\<close>

record rng =
  rng_word :: "nat list"
  rng_wrong :: "nat list"
  rng_direction :: bool
  rng_greek :: "nat list"
  rng_shuffle :: "nat list"

section \<open>Distractor generator (utils/wrong\_answers.py)\<close>

definition generate_wrong_answers_for_word ::
  "nat list \<Rightarrow> word_row list \<Rightarrow> int \<Rightarrow> string \<Rightarrow> nat \<Rightarrow> string list" where
  "generate_wrong_answers_for_word rs db correct_word_id wt cnt =
     map russian
       (select_random rs (\<lambda>r. w_id r \<noteq> correct_word_id \<and> word_type r = wt) cnt db)"

definition generate_wrong_answers_for_phrase ::
  "nat list \<Rightarrow> word_row list \<Rightarrow> string \<Rightarrow> nat \<Rightarrow> string list" where
  "generate_wrong_answers_for_phrase rs db correct_phrase cnt =
     map russian
       (select_random rs (\<lambda>r. russian r \<noteq> correct_phrase \<and> word_type r = ''phrase'') cnt db)"

definition generate_wrong_answers ::
  "nat list \<Rightarrow> word_row list \<Rightarrow> int \<Rightarrow> string \<Rightarrow> string \<Rightarrow> nat \<Rightarrow> string list" where
  "generate_wrong_answers rs db word_id wt correct_answer cnt =
     (if wt = ''phrase'' then generate_wrong_answers_for_phrase rs db correct_answer cnt
      else generate_wrong_answers_for_word rs db word_id wt cnt)"

section \<open>Quiz generator (services/quiz\_service.py)\<close>

text \<open>
  The quiz dictionary built by \<^verbatim>\<open>generate_quiz\<close>. The direction labels contain the
  arrow U+2192, three bytes in UTF-8.
\<close>

record quiz =
  q_word_id :: int
  question :: string
  answers :: "string list"
  correct_index :: int
  direction :: string
  q_word_type :: string

definition GR_RU :: string where
  "GR_RU = ''GR'' @ [CHR 0xE2, CHR 0x86, CHR 0x92] @ ''RU''"

definition RU_GR :: string where
  "RU_GR = ''RU'' @ [CHR 0xE2, CHR 0x86, CHR 0x92] @ ''GR''"

definition select_random_word :: "nat list \<Rightarrow> word_row list \<Rightarrow> word_row option" where
  "select_random_word rs db =
     (case select_random rs (\<lambda>r. True) 1 db of [] \<Rightarrow> None | row # _ \<Rightarrow> Some row)"

text \<open>\<^verbatim>\<open>list.index\<close>: the first position of a value, \<^verbatim>\<open>ValueError\<close> when it is absent.\<close>

fun list_index :: "'a list \<Rightarrow> 'a \<Rightarrow> nat option" where
  "list_index [] v = None"
| "list_index (x # xs) v = (if x = v then Some 0 else map_option Suc (list_index xs v))"

definition generate_quiz :: "rng \<Rightarrow> word_row list \<Rightarrow> py_error + quiz option" where
  "generate_quiz g db =
     (case select_random_word (rng_word g) db of
        None \<Rightarrow> Inr None
      | Some word \<Rightarrow>
          (let wrong_answers =
                 generate_wrong_answers (rng_wrong g) db
                   (w_id word) (word_type word) (russian word) 3
           in if length wrong_answers < 3 then Inr None
              else
                (let is_greek_to_russian = rng_direction g;
                     question = (if is_greek_to_russian then greek word else russian word);
                     correct_answer = (if is_greek_to_russian then russian word else greek word);
                     wrong_answers =
                       (if is_greek_to_russian then wrong_answers
                        else map greek
                               (select_random (rng_greek g)
                                  (\<lambda>r. w_id r \<noteq> w_id word \<and> word_type r = word_type word) 3 db));
                     all_answers = random_order (rng_shuffle g) (correct_answer # wrong_answers)
                 in case list_index all_answers correct_answer of
                      None \<Rightarrow> Inl ValueError
                    | Some idx \<Rightarrow>
                        Inr (Some \<lparr>q_word_id = w_id word,
                                   question = question,
                                   answers = all_answers,
                                   correct_index = int idx,
                                   direction = (if is_greek_to_russian then GR_RU else RU_GR),
                                   q_word_type = word_type word\<rparr>))))"


definition check_answer :: "quiz \<Rightarrow> int \<Rightarrow> bool" where
  "check_answer quiz_data user_answer_index \<longleftrightarrow> user_answer_index = correct_index quiz_data"

text \<open>
  Two notions used to state properties of \<^verbatim>\<open>generate_quiz\<close>: the rows that satisfy the
  \<^verbatim>\<open>WHERE\<close> clause of the distractor query issued for a word, and the answer list as
  it is assembled just before \<^verbatim>\<open>random.shuffle\<close>.
\<close>

definition wrong_answer_candidates :: "word_row list \<Rightarrow> word_row \<Rightarrow> word_row list" where
  "wrong_answer_candidates db w =
     (if word_type w = ''phrase''
      then filter (\<lambda>r. russian r \<noteq> russian w \<and> word_type r = ''phrase'') db
      else filter (\<lambda>r. w_id r \<noteq> w_id w \<and> word_type r = word_type w) db)"

definition unshuffled_answers :: "rng \<Rightarrow> word_row list \<Rightarrow> word_row \<Rightarrow> string list" where
  "unshuffled_answers g db w =
     (if rng_direction g
      then russian w #
           generate_wrong_answers (rng_wrong g) db (w_id w) (word_type w) (russian w) 3
      else greek w #
           map greek (select_random (rng_greek g)
                        (\<lambda>r. w_id r \<noteq> w_id w \<and> word_type r = word_type w) 3 db))"

section \<open>Statistics (services/stats\_service.py)\<close>

text \<open>
  A row of \<^verbatim>\<open>user_stats\<close>. The table has an autoincremented id and the constraint
  \<^verbatim>\<open>UNIQUE(user_id, word_id)\<close>; SQLite does not enforce the foreign keys unless asked to,
  and the program does not ask. Integers are Python's and are not bounded.
\<close>

type_synonym timestamp = int

record stat_row =
  s_id :: int
  s_user_id :: int
  s_word_id :: int
  correct_answers :: int
  total_answers :: int
  last_asked :: "timestamp option"
  difficulty_multiplier :: rat

definition stat_key :: "stat_row \<Rightarrow> int \<times> int" where
  "stat_key r = (s_user_id r, s_word_id r)"

definition wf_stats :: "stat_row list \<Rightarrow> bool" where
  "wf_stats tbl = distinct (map stat_key tbl)"

text \<open>The invariant of the data model: \<open>0 \<le> correct_answers \<le> total_answers\<close> in every row.\<close>

definition stats_invariant :: "stat_row list \<Rightarrow> bool" where
  "stats_invariant tbl = (\<forall>r \<in> set tbl. 0 \<le> correct_answers r \<and> correct_answers r \<le> total_answers r)"

text \<open>\<^verbatim>\<open>SELECT * FROM user_stats WHERE user_id = ? AND word_id = ?\<close>\<close>

definition select_user_stat :: "stat_row list \<Rightarrow> int \<Rightarrow> int \<Rightarrow> stat_row list" where
  "select_user_stat tbl uid wid = filter (\<lambda>r. s_user_id r = uid \<and> s_word_id r = wid) tbl"

text \<open>\<^verbatim>\<open>UPDATE user_stats SET correct_answers = ?, total_answers = ?, last_asked = ? WHERE ...\<close>\<close>

definition update_user_stat ::
  "int \<Rightarrow> int \<Rightarrow> timestamp \<Rightarrow> int \<Rightarrow> int \<Rightarrow> stat_row list \<Rightarrow> stat_row list" where
  "update_user_stat new_correct new_total now uid wid tbl =
     map (\<lambda>r. if s_user_id r = uid \<and> s_word_id r = wid
               then r\<lparr>correct_answers := new_correct, total_answers := new_total,
                      last_asked := Some now\<rparr>
               else r) tbl"

text \<open>
  \<^verbatim>\<open>INSERT INTO user_stats (user_id, word_id, correct_answers, total_answers, last_asked)\<close>:
  the row gets the next id and the default multiplier; the insert is refused with
  \<^verbatim>\<open>IntegrityError\<close> when the pair is already in the table.
\<close>

definition insert_user_stat ::
  "int \<Rightarrow> int \<Rightarrow> int \<Rightarrow> int \<Rightarrow> timestamp \<Rightarrow> stat_row list \<Rightarrow> py_error + stat_row list" where
  "insert_user_stat uid wid c t now tbl =
     (if (uid, wid) \<in> set (map stat_key tbl) then Inl IntegrityError
      else Inr (tbl @ [\<lparr>s_id = fold max (map s_id tbl) 0 + 1, s_user_id = uid, s_word_id = wid,
                         correct_answers = c, total_answers = t, last_asked = Some now,
                         difficulty_multiplier = 1\<rparr>]))"

text \<open>
  \<^verbatim>\<open>record_answer\<close> runs two statements, each through its own connection and commit
  (database/db.py): the \<^verbatim>\<open>SELECT\<close>, then an \<^verbatim>\<open>UPDATE\<close> or an \<^verbatim>\<open>INSERT\<close> computed from
  the rows that the \<^verbatim>\<open>SELECT\<close> returned.
\<close>

definition record_answer_write ::
  "stat_row list \<Rightarrow> timestamp \<Rightarrow> int \<Rightarrow> int \<Rightarrow> bool \<Rightarrow> stat_row list \<Rightarrow> py_error + stat_row list"
  where
  "record_answer_write results now user_id word_id is_correct tbl =
     (case results of
        stat # _ \<Rightarrow>
          (let new_correct = correct_answers stat + (if is_correct then 1 else 0);
               new_total = total_answers stat + 1
           in Inr (update_user_stat new_correct new_total now user_id word_id tbl))
      | [] \<Rightarrow> insert_user_stat user_id word_id (if is_correct then 1 else 0) 1 now tbl)"

definition record_answer ::
  "timestamp \<Rightarrow> int \<Rightarrow> int \<Rightarrow> bool \<Rightarrow> stat_row list \<Rightarrow> py_error + stat_row list" where
  "record_answer now user_id word_id is_correct tbl =
     record_answer_write (select_user_stat tbl user_id word_id) now user_id word_id is_correct tbl"

text \<open>A series of answers of one user, each with its time, word and correctness.\<close>

fun record_answers ::
  "int \<Rightarrow> (timestamp \<times> int \<times> bool) list \<Rightarrow> stat_row list \<Rightarrow> py_error + stat_row list" where
  "record_answers user_id [] tbl = Inr tbl"
| "record_answers user_id ((now, word_id, is_correct) # evs) tbl =
     (case record_answer now user_id word_id is_correct tbl of
        Inl e \<Rightarrow> Inl e
      | Inr tbl' \<Rightarrow> record_answers user_id evs tbl')"

subsection \<open>Floating point\<close>

text \<open>
  Python floats are IEEE 754 binary64 numbers. A finite float is modelled by its exact
  value, a rational number. \<open>binary64\<close> rounds a rational to the nearest number with a
  significand of 53 bits, ties to the even significand. The exponent is not bounded here:
  the values that arise, ratios and percentages of answer counts, are far inside the
  normal range of the format. In Python \<^verbatim>\<open>int / int\<close> is the correctly rounded quotient,
  \<^verbatim>\<open>float * int\<close> the correctly rounded product, and \<^verbatim>\<open>round(x, n)\<close> rounds the exact
  value of \<open>x\<close> to \<open>n\<close> decimals, ties to even, and returns the nearest float.
\<close>

definition round_half_even :: "rat \<Rightarrow> int" where
  "round_half_even x =
     (let f = \<lfloor>x\<rfloor>; r = x - of_int f
      in if r < 1 / 2 then f else if 1 / 2 < r then f + 1 else if even f then f else f + 1)"

definition floor_log2 :: "rat \<Rightarrow> int" where
  "floor_log2 x =
     (let (p, q) = quotient_of x; d = bitlen p - bitlen q
      in if 2 powi d \<le> x then d else d - 1)"

definition binary64 :: "rat \<Rightarrow> rat" where
  "binary64 x =
     (if x = 0 then 0
      else (let e = floor_log2 \<bar>x\<bar> - 52
            in of_int (round_half_even (x / 2 powi e)) * 2 powi e))"

definition true_divide :: "int \<Rightarrow> int \<Rightarrow> rat" where
  "true_divide a b = binary64 (of_int a / of_int b)"

definition float_mul :: "rat \<Rightarrow> rat \<Rightarrow> rat" where
  "float_mul x y = binary64 (x * y)"

definition py_round :: "rat \<Rightarrow> nat \<Rightarrow> rat" where
  "py_round x ndigits = binary64 (of_int (round_half_even (x * 10 ^ ndigits)) / 10 ^ ndigits)"

text \<open>
  The percentage in exact arithmetic, rounded to one decimal (ties to even): the reading
  of ``\<open>100 * total_correct / total_questions\<close> rounded to one decimal place'' against
  which the computed rate is compared.
\<close>

definition exact_success_rate :: "int \<Rightarrow> int \<Rightarrow> rat" where
  "exact_success_rate c t = of_int (round_half_even (10 * (100 * of_int c / of_int t))) / 10"

subsection \<open>Aggregation\<close>

record user_stats_report =
  total_correct :: int
  total_questions :: int
  success_rate :: rat

text \<open>\<^verbatim>\<open>SUM(col)\<close> over the selected rows: \<^verbatim>\<open>NULL\<close> when no row is selected.\<close>

definition sql_sum :: "int list \<Rightarrow> int option" where
  "sql_sum xs = (if xs = [] then None else Some (sum_list xs))"

text \<open>
  The aggregate query returns exactly one row. Both sums are \<^verbatim>\<open>NULL\<close> together, so the
  test on \<^verbatim>\<open>total_questions\<close> also covers \<^verbatim>\<open>total_correct\<close>.
\<close>

definition get_user_stats :: "stat_row list \<Rightarrow> int \<Rightarrow> user_stats_report" where
  "get_user_stats tbl user_id =
     (let rows = filter (\<lambda>r. s_user_id r = user_id) tbl
      in case sql_sum (map total_answers rows) of
           None \<Rightarrow> \<lparr>total_correct = 0, total_questions = 0, success_rate = 0\<rparr>
         | Some tq \<Rightarrow>
             (let tc = sum_list (map correct_answers rows);
                  rate = (if tq > 0 then float_mul (true_divide tc tq) 100 else 0)
              in \<lparr>total_correct = tc, total_questions = tq,
                   success_rate = py_round rate 1\<rparr>))"

section \<open>Chat handlers (handlers/quiz.py)\<close>

text \<open>
  A row of \<^verbatim>\<open>users\<close> without its primary key \<^verbatim>\<open>user_id\<close>: the table is a map from
  the key to the other columns. The truth value of \<^verbatim>\<open>quiz_session_active\<close> in Python is
  that the stored integer is not zero.
\<close>

record user_row =
  username :: "string option"
  first_name :: "string option"
  quiz_session_active :: int
  auto_quiz_enabled :: int
  questions_per_session :: int
  session_interval_minutes :: int
  last_auto_quiz :: "timestamp option"
  joined_at :: timestamp

record tg_user =
  tg_id :: int
  tg_username :: "string option"
  tg_first_name :: string

text \<open>
  The state the handlers work on: the three tables and, for every user, the value of
  \<^verbatim>\<open>context.user_data.get('current_quiz')\<close> (\<open>None\<close> when the key is absent or holds
  \<^verbatim>\<open>None\<close>; the handlers read it in no other way).
\<close>

record bot_state =
  words :: "word_row list"
  users :: "int \<rightharpoonup> user_row"
  user_stats :: "stat_row list"
  current_quiz :: "int \<Rightarrow> quiz option"

text \<open>
  What a handler sends. The texts are fixed strings around the values kept here; a
  keyboard is the list of its button labels, button \<open>i\<close> carrying \<^verbatim>\<open>answer_i\<close>.
\<close>

datatype message_text =
    NotEnoughWords
  | QuizQuestion string string
  | SessionAlreadyActive
  | SessionStarted
  | SessionStopped user_stats_report
  | QuizDataNotFound
  | AnswerCorrect user_stats_report
  | AnswerIncorrect string user_stats_report

datatype api_call =
    ReplyText message_text "string list"
  | AnswerCallbackQuery
  | EditMessageText message_text
  | SendMessage int message_text "string list"

text \<open>
  The result of a handler: the state it leaves, the calls it made to the chat interface
  in order, and the exception that ended it, if any.
\<close>

record outcome =
  state :: bot_state
  calls :: "api_call list"
  raised :: "py_error option"

text \<open>\<^verbatim>\<open>results and results[0]['quiz_session_active']\<close> after the \<^verbatim>\<open>SELECT\<close> on \<^verbatim>\<open>users\<close>.\<close>

definition session_active :: "bot_state \<Rightarrow> int \<Rightarrow> bool" where
  "session_active s uid =
     (case users s uid of None \<Rightarrow> False | Some r \<Rightarrow> quiz_session_active r \<noteq> 0)"

text \<open>Python's \<^verbatim>\<open>xs[i]\<close>: a negative index counts from the end.\<close>

definition py_getitem :: "'a list \<Rightarrow> int \<Rightarrow> py_error + 'a" where
  "py_getitem xs i =
     (if 0 \<le> i \<and> i < int (length xs) then Inr (xs ! nat i)
      else if i < 0 \<and> - int (length xs) \<le> i then Inr (xs ! nat (int (length xs) + i))
      else Inl IndexError)"

definition quiz_command :: "rng \<Rightarrow> tg_user \<Rightarrow> bot_state \<Rightarrow> outcome" where
  "quiz_command g user s =
     (case generate_quiz g (words s) of
        Inl e \<Rightarrow> \<lparr>state = s, calls = [], raised = Some e\<rparr>
      | Inr None \<Rightarrow> \<lparr>state = s, calls = [ReplyText NotEnoughWords []], raised = None\<rparr>
      | Inr (Some quiz_data) \<Rightarrow>
          \<lparr>state = s\<lparr>current_quiz := (current_quiz s)(tg_id user := Some quiz_data)\<rparr>,
           calls = [ReplyText (QuizQuestion (direction quiz_data) (question quiz_data))
                      (answers quiz_data)],
           raised = None\<rparr>)"

text \<open>
  \<^verbatim>\<open>INSERT OR REPLACE INTO users (user_id, username, first_name, quiz_session_active)\<close>
  \<^verbatim>\<open>VALUES (?, ?, ?, 1)\<close>: a row with the same key is deleted, and the new row takes
  the column defaults of \<^verbatim>\<open>create_users_table\<close> for the columns not listed
  (\<^verbatim>\<open>CURRENT_TIMESTAMP\<close> is the time of the statement).
\<close>

definition insert_or_replace_user :: "timestamp \<Rightarrow> tg_user \<Rightarrow> (int \<rightharpoonup> user_row) \<Rightarrow> (int \<rightharpoonup> user_row)"
  where
  "insert_or_replace_user now user tbl =
     tbl(tg_id user \<mapsto>
       \<lparr>username = tg_username user, first_name = Some (tg_first_name user),
        quiz_session_active = 1, auto_quiz_enabled = 1, questions_per_session = 5,
        session_interval_minutes = 15, last_auto_quiz = None, joined_at = now\<rparr>)"

definition quiz_session_command :: "timestamp \<Rightarrow> rng \<Rightarrow> tg_user \<Rightarrow> bot_state \<Rightarrow> outcome" where
  "quiz_session_command now g user s =
     (if session_active s (tg_id user)
      then \<lparr>state = s, calls = [ReplyText SessionAlreadyActive []], raised = None\<rparr>
      else
        (let s1 = s\<lparr>users := insert_or_replace_user now user (users s)\<rparr>;
             out = quiz_command g user s1
         in out\<lparr>calls := ReplyText SessionStarted [] # calls out\<rparr>))"

text \<open>\<^verbatim>\<open>UPDATE users SET quiz_session_active = 0 WHERE user_id = ?\<close>\<close>

definition deactivate_session :: "int \<Rightarrow> (int \<rightharpoonup> user_row) \<Rightarrow> (int \<rightharpoonup> user_row)" where
  "deactivate_session uid tbl =
     (case tbl uid of None \<Rightarrow> tbl | Some r \<Rightarrow> tbl(uid \<mapsto> r\<lparr>quiz_session_active := 0\<rparr>))"

definition stop_command :: "tg_user \<Rightarrow> bot_state \<Rightarrow> outcome" where
  "stop_command user s =
     (let s1 = s\<lparr>users := deactivate_session (tg_id user) (users s)\<rparr>;
          stats = get_user_stats (user_stats s1) (tg_id user)
      in \<lparr>state = s1, calls = [ReplyText (SessionStopped stats) []], raised = None\<rparr>)"

text \<open>
  The answer handler. Its argument \<open>answer_index\<close> is the number parsed from the callback
  data \<^verbatim>\<open>answer_i\<close> of the pressed button. A statement that raises leaves the writes
  made before it in place.
\<close>

definition answer_callback :: "timestamp \<Rightarrow> rng \<Rightarrow> tg_user \<Rightarrow> int \<Rightarrow> bot_state \<Rightarrow> outcome" where
  "answer_callback now g user answer_index s =
     (case current_quiz s (tg_id user) of
        None \<Rightarrow>
          \<lparr>state = s, calls = [AnswerCallbackQuery, EditMessageText QuizDataNotFound],
           raised = None\<rparr>
      | Some quiz_data \<Rightarrow>
          (let is_correct = check_answer quiz_data answer_index
           in case record_answer now (tg_id user) (q_word_id quiz_data) is_correct (user_stats s) of
                Inl e \<Rightarrow> \<lparr>state = s, calls = [AnswerCallbackQuery], raised = Some e\<rparr>
              | Inr tbl \<Rightarrow>
                  (let s1 = s\<lparr>user_stats := tbl\<rparr>;
                       stats = get_user_stats tbl (tg_id user)
                   in case (if is_correct then Inr (AnswerCorrect stats)
                            else case py_getitem (answers quiz_data) (correct_index quiz_data) of
                                   Inl e \<Rightarrow> Inl e
                                 | Inr correct_answer \<Rightarrow> Inr (AnswerIncorrect correct_answer stats)) of
                        Inl e \<Rightarrow> \<lparr>state = s1, calls = [AnswerCallbackQuery], raised = Some e\<rparr>
                      | Inr response \<Rightarrow>
                          (let s2 = s1\<lparr>current_quiz := (current_quiz s1)(tg_id user := None)\<rparr>;
                               sent = [AnswerCallbackQuery, EditMessageText response]
                           in if session_active s2 (tg_id user)
                              then (case generate_quiz g (words s2) of
                                      Inl e \<Rightarrow> \<lparr>state = s2, calls = sent, raised = Some e\<rparr>
                                    | Inr None \<Rightarrow> \<lparr>state = s2, calls = sent, raised = None\<rparr>
                                    | Inr (Some next_quiz) \<Rightarrow>
                                        \<lparr>state = s2\<lparr>current_quiz :=
                                                    (current_quiz s2)(tg_id user := Some next_quiz)\<rparr>,
                                         calls = sent @
                                           [SendMessage (tg_id user)
                                              (QuizQuestion (direction next_quiz) (question next_quiz))
                                              (answers next_quiz)],
                                         raised = None\<rparr>)
                              else \<lparr>state = s2, calls = sent, raised = None\<rparr>))))"

section \<open>Sample data\<close>

definition mk_word :: "int \<Rightarrow> string \<Rightarrow> string \<Rightarrow> string \<Rightarrow> word_row" where
  "mk_word i g r t = \<lparr>w_id = i, greek = g, russian = r, word_type = t\<rparr>"

definition four_nouns :: "word_row list" where
  "four_nouns =
     [mk_word 1 ''nero'' ''voda'' ''noun'', mk_word 2 ''spiti'' ''dom'' ''noun'',
      mk_word 3 ''psomi'' ''hleb'' ''noun'', mk_word 4 ''gala'' ''moloko'' ''noun'']"

definition fixed_rng :: "bool \<Rightarrow> rng" where
  "fixed_rng d = \<lparr>rng_word = [], rng_wrong = [], rng_direction = d, rng_greek = [],
                  rng_shuffle = [1]\<rparr>"

definition mk_stat :: "int \<Rightarrow> int \<Rightarrow> int \<Rightarrow> int \<Rightarrow> int \<Rightarrow> stat_row" where
  "mk_stat i u w c t =
     \<lparr>s_id = i, s_user_id = u, s_word_id = w, correct_answers = c, total_answers = t,
      last_asked = Some 0, difficulty_multiplier = 1\<rparr>"

definition sample_user :: tg_user where
  "sample_user = \<lparr>tg_id = 7, tg_username = Some ''maria'', tg_first_name = ''Maria''\<rparr>"

text \<open>A user row whose settings differ from the column defaults.\<close>

definition sample_row :: "int \<Rightarrow> user_row" where
  "sample_row a =
     \<lparr>username = Some ''maria'', first_name = Some ''Maria'', quiz_session_active = a,
      auto_quiz_enabled = 0, questions_per_session = 10, session_interval_minutes = 30,
      last_auto_quiz = Some 50, joined_at = 1\<rparr>"

definition sample_state :: "int \<Rightarrow> bot_state" where
  "sample_state a =
     \<lparr>words = four_nouns, users = [7 \<mapsto> sample_row a], user_stats = [],
      current_quiz = (\<lambda>_. None)\<rparr>"


section \<open>Seed data (database/db.py, bot.py)\<close>

text \<open>
  The eight words of \<^verbatim>\<open>test_words\<close>. Their Greek and Russian strings are given by
  their bytes in UTF-8 and named by a transliteration.
\<close>

definition gr_kano :: string where
  "gr_kano =
     [CHR 0xCE, CHR 0xBA, CHR 0xCE, CHR 0xAC, CHR 0xCE, CHR 0xBD, CHR 0xCF, CHR 0x89]"

definition ru_delat :: string where
  "ru_delat =
     [CHR 0xD0, CHR 0xB4, CHR 0xD0, CHR 0xB5, CHR 0xD0, CHR 0xBB, CHR 0xD0,
      CHR 0xB0, CHR 0xD1, CHR 0x82, CHR 0xD1, CHR 0x8C]"

definition gr_kalimera :: string where
  "gr_kalimera =
     [CHR 0xCE, CHR 0x9A, CHR 0xCE, CHR 0xB1, CHR 0xCE, CHR 0xBB, CHR 0xCE,
      CHR 0xB7, CHR 0xCE, CHR 0xBC, CHR 0xCE, CHR 0xAD, CHR 0xCF, CHR 0x81,
      CHR 0xCE, CHR 0xB1]"

definition ru_dobroe_utro :: string where
  "ru_dobroe_utro =
     [CHR 0xD0, CHR 0x94, CHR 0xD0, CHR 0xBE, CHR 0xD0, CHR 0xB1, CHR 0xD1,
      CHR 0x80, CHR 0xD0, CHR 0xBE, CHR 0xD0, CHR 0xB5, CHR 0x20, CHR 0xD1,
      CHR 0x83, CHR 0xD1, CHR 0x82, CHR 0xD1, CHR 0x80, CHR 0xD0, CHR 0xBE]"

definition gr_nero :: string where
  "gr_nero =
     [CHR 0xCE, CHR 0xBD, CHR 0xCE, CHR 0xB5, CHR 0xCF, CHR 0x81, CHR 0xCF, CHR 0x8C]"

definition ru_voda :: string where
  "ru_voda =
     [CHR 0xD0, CHR 0xB2, CHR 0xD0, CHR 0xBE, CHR 0xD0, CHR 0xB4, CHR 0xD0, CHR 0xB0]"

definition gr_kalos :: string where
  "gr_kalos =
     [CHR 0xCE, CHR 0xBA, CHR 0xCE, CHR 0xB1, CHR 0xCE, CHR 0xBB, CHR 0xCF,
      CHR 0x8C, CHR 0xCF, CHR 0x82]"

definition ru_horoshij :: string where
  "ru_horoshij =
     [CHR 0xD1, CHR 0x85, CHR 0xD0, CHR 0xBE, CHR 0xD1, CHR 0x80, CHR 0xD0,
      CHR 0xBE, CHR 0xD1, CHR 0x88, CHR 0xD0, CHR 0xB8, CHR 0xD0, CHR 0xB9]"

definition gr_efharisto :: string where
  "gr_efharisto =
     [CHR 0xCE, CHR 0x95, CHR 0xCF, CHR 0x85, CHR 0xCF, CHR 0x87, CHR 0xCE,
      CHR 0xB1, CHR 0xCF, CHR 0x81, CHR 0xCE, CHR 0xB9, CHR 0xCF, CHR 0x83,
      CHR 0xCF, CHR 0x84, CHR 0xCF, CHR 0x8E]"

definition ru_spasibo :: string where
  "ru_spasibo =
     [CHR 0xD0, CHR 0xA1, CHR 0xD0, CHR 0xBF, CHR 0xD0, CHR 0xB0, CHR 0xD1,
      CHR 0x81, CHR 0xD0, CHR 0xB8, CHR 0xD0, CHR 0xB1, CHR 0xD0, CHR 0xBE]"

definition gr_spiti :: string where
  "gr_spiti =
     [CHR 0xCF, CHR 0x83, CHR 0xCF, CHR 0x80, CHR 0xCE, CHR 0xAF, CHR 0xCF,
      CHR 0x84, CHR 0xCE, CHR 0xB9]"

definition ru_dom :: string where
  "ru_dom =
     [CHR 0xD0, CHR 0xB4, CHR 0xD0, CHR 0xBE, CHR 0xD0, CHR 0xBC]"

definition gr_grigora :: string where
  "gr_grigora =
     [CHR 0xCE, CHR 0xB3, CHR 0xCF, CHR 0x81, CHR 0xCE, CHR 0xAE, CHR 0xCE,
      CHR 0xB3, CHR 0xCE, CHR 0xBF, CHR 0xCF, CHR 0x81, CHR 0xCE, CHR 0xB1]"

definition ru_bystro :: string where
  "ru_bystro =
     [CHR 0xD0, CHR 0xB1, CHR 0xD1, CHR 0x8B, CHR 0xD1, CHR 0x81, CHR 0xD1,
      CHR 0x82, CHR 0xD1, CHR 0x80, CHR 0xD0, CHR 0xBE]"

definition gr_ego :: string where
  "gr_ego =
     [CHR 0xCE, CHR 0xB5, CHR 0xCE, CHR 0xB3, CHR 0xCF, CHR 0x8E]"

definition ru_ya :: string where
  "ru_ya =
     [CHR 0xD1, CHR 0x8F]"

definition test_words :: "(string \<times> string \<times> string) list" where
  "test_words =
     [(gr_kano, ru_delat, ''verb''),
      (gr_kalimera, ru_dobroe_utro, ''phrase''),
      (gr_nero, ru_voda, ''noun''),
      (gr_kalos, ru_horoshij, ''adjective''),
      (gr_efharisto, ru_spasibo, ''phrase''),
      (gr_spiti, ru_dom, ''noun''),
      (gr_grigora, ru_bystro, ''adverb''),
      (gr_ego, ru_ya, ''pronoun'')]"

text \<open>
  \<^verbatim>\<open>INSERT OR IGNORE INTO words (greek, russian, word_type) VALUES (?, ?, ?)\<close>. The table
  has no constraint on these columns other than \<^verbatim>\<open>NOT NULL\<close> and the list of word types,
  so no insert is ignored: the row is added under the next id.
\<close>

definition insert_word :: "word_row list \<Rightarrow> string \<times> string \<times> string \<Rightarrow> word_row list" where
  "insert_word tbl w =
     (case w of
        (g, r, t) \<Rightarrow>
          tbl @ [\<lparr>w_id = fold max (map w_id tbl) 0 + 1, greek = g, russian = r, word_type = t\<rparr>])"

text \<open>
  \<^verbatim>\<open>add_test_data\<close> inserts the eight words in order. \<^verbatim>\<open>main\<close> calls it at every start
  of the bot, on the table that the previous runs left in the database file.
\<close>

definition add_test_data :: "word_row list \<Rightarrow> word_row list" where
  "add_test_data tbl = foldl insert_word tbl test_words"
section \<open>Properties of the random choices\<close>

lemma remove_nth_mset:
  "i < length xs \<Longrightarrow> mset (xs ! i # take i xs @ drop (Suc i) xs) = mset xs"
proof -
  assume "i < length xs"
  then have "xs = take i xs @ xs ! i # drop (Suc i) xs"
    by (rule id_take_nth_drop)
  then have "mset xs = mset (take i xs @ xs ! i # drop (Suc i) xs)"
    by simp
  then show ?thesis
    by simp
qed

lemma mset_random_order: "mset (random_order rs xs) = mset xs"
proof (induction rs xs rule: random_order.induct)
  case (3 r rs x xs)
  let ?ys = "x # xs"
  let ?i = "r mod length ?ys"
  have i: "?i < length ?ys"
    by simp
  have "mset (random_order (r # rs) ?ys)
          = mset (?ys ! ?i # take ?i ?ys @ drop (Suc ?i) ?ys)"
    using 3 by (simp add: Let_def del: mset_append)
  also have "\<dots> = mset ?ys"
    using i by (rule remove_nth_mset)
  finally show ?case .
qed simp_all

lemma set_random_order: "set (random_order rs xs) = set xs"
  by (metis mset_random_order set_mset_mset)

lemma length_random_order: "length (random_order rs xs) = length xs"
  by (metis mset_random_order size_mset)

lemma distinct_random_order: "distinct (random_order rs xs) = distinct xs"
  by (metis mset_random_order mset_eq_imp_distinct_iff)

lemma random_order_complete: "mset ys = mset xs \<Longrightarrow> \<exists>rs. random_order rs xs = ys"
proof (induction ys arbitrary: xs)
  case Nil
  then show ?case by simp
next
  case (Cons y ys)
  then have "y \<in> set xs"
    by (metis list.set_intros(1) set_mset_mset)
  then obtain i where i: "i < length xs" "xs ! i = y"
    by (auto simp: in_set_conv_nth)
  define zs where "zs = take i xs @ drop (Suc i) xs"
  have "mset (y # zs) = mset xs"
    using remove_nth_mset [OF i(1)] i(2) by (simp add: zs_def)
  then have "mset ys = mset zs"
    using Cons.prems by (metis add_mset_remove_trivial mset.simps(2))
  then obtain rs where rs: "random_order rs zs = ys"
    using Cons.IH by blast
  obtain x xs' where xs: "xs = x # xs'"
    using i(1) by (cases xs) auto
  have "random_order (i # rs) xs = ys'" if "ys' = y # ys" for ys'
    using i rs that unfolding xs zs_def by (simp add: Let_def)
  then show ?case by blast
qed

section \<open>Auxiliary facts about the queries\<close>

lemma mset_take_subset: "mset (take n xs) \<subseteq># mset xs"
proof -
  have "mset xs = mset (take n xs) + mset (drop n xs)"
    by (metis append_take_drop_id mset_append)
  then show ?thesis
    by simp
qed

lemma length_select_random: "length (select_random rs p n tbl) = min n (length (filter p tbl))"
  by (simp add: select_random_def length_random_order min.commute)

lemma mset_select_random: "mset (select_random rs p n tbl) \<subseteq># mset (filter p tbl)"
  unfolding select_random_def
  by (metis mset_take_subset mset_random_order)

lemma set_select_random: "set (select_random rs p n tbl) \<subseteq> set (filter p tbl)"
  by (metis mset_select_random set_mset_mono set_mset_mset)

lemma select_random_word_None: "select_random_word rs db = None \<longleftrightarrow> db = []"
proof -
  have "length (select_random rs (\<lambda>r. True) 1 db) = min 1 (length db)"
    by (simp add: length_select_random)
  then show ?thesis
    unfolding select_random_word_def
    by (cases "select_random rs (\<lambda>r. True) 1 db") (auto simp: min_def split: if_splits)
qed

lemma select_random_word_mem: "select_random_word rs db = Some w \<Longrightarrow> w \<in> set db"
proof -
  assume "select_random_word rs db = Some w"
  then have "w \<in> set (select_random rs (\<lambda>r. True) 1 db)"
    unfolding select_random_word_def by (auto split: list.splits)
  then show ?thesis
    using set_select_random by fastforce
qed

lemma list_index_Some: "list_index xs v = Some i \<Longrightarrow> i < length xs \<and> xs ! i = v"
  by (induction xs arbitrary: i) (auto split: if_splits)

lemma list_index_None_iff: "list_index xs v = None \<longleftrightarrow> v \<notin> set xs"
  by (induction xs) auto

lemma select_random_word_Nil: "select_random_word rs [] = None"
  by (simp add: select_random_word_None)

lemma length_generate_wrong_answers:
  "length (generate_wrong_answers rs db (w_id w) (word_type w) (russian w) n)
     = min n (length (wrong_answer_candidates db w))"
  by (simp add: generate_wrong_answers_def generate_wrong_answers_for_phrase_def
      generate_wrong_answers_for_word_def wrong_answer_candidates_def length_select_random)

lemma generate_quiz_no_error: "generate_quiz g db \<noteq> Inl e"
  unfolding generate_quiz_def
  by (auto simp: Let_def list_index_None_iff set_random_order split: option.splits)

lemma generate_quiz_None_iff:
  "generate_quiz g db = Inr None \<longleftrightarrow>
     db = [] \<or> (\<exists>w. select_random_word (rng_word g) db = Some w
                  \<and> length (wrong_answer_candidates db w) < 3)"
  unfolding generate_quiz_def
  by (auto simp: Let_def length_generate_wrong_answers select_random_word_None
      select_random_word_Nil list_index_None_iff set_random_order split: option.splits)

lemma generate_quiz_SomeD:
  assumes "generate_quiz g db = Inr (Some q)"
  shows "\<exists>w i. select_random_word (rng_word g) db = Some w
           \<and> 3 \<le> length (wrong_answer_candidates db w)
           \<and> answers q = random_order (rng_shuffle g) (unshuffled_answers g db w)
           \<and> list_index (answers q) (if rng_direction g then russian w else greek w) = Some i
           \<and> correct_index q = int i
           \<and> direction q = (if rng_direction g then GR_RU else RU_GR)
           \<and> question q = (if rng_direction g then greek w else russian w)
           \<and> q_word_id q = w_id w \<and> q_word_type q = word_type w"
  using assms unfolding generate_quiz_def unshuffled_answers_def
  by (auto simp: Let_def length_generate_wrong_answers split: option.splits if_splits)


lemmas quiz_eval_defs = generate_quiz_def select_random_word_def select_random_def
  generate_wrong_answers_def generate_wrong_answers_for_word_def
  generate_wrong_answers_for_phrase_def mk_word_def four_nouns_def add_test_data_def
  insert_word_def test_words_def
  fixed_rng_def Let_def

lemma GR_RU_neq: "GR_RU \<noteq> RU_GR"
  by (simp add: GR_RU_def RU_GR_def)



lemma distinct_map_submset:
  assumes "mset xs \<subseteq># mset ys" and "distinct (map f ys)"
  shows "distinct (map f xs)"
proof -
  have sub: "mset (map f xs) \<subseteq># mset (map f ys)"
    using assms(1) by (simp add: image_mset_subseteq_mono)
  have "count (mset (map f xs)) a = (if a \<in> set (map f xs) then 1 else 0)" for a
  proof (cases "a \<in> set (map f xs)")
    case True
    then have "1 \<le> count (mset (map f xs)) a"
      by (metis count_greater_eq_one_iff set_mset_mset)
    moreover have "count (mset (map f xs)) a \<le> count (mset (map f ys)) a"
      using sub by (rule mset_subset_eq_count)
    moreover have "count (mset (map f ys)) a \<le> 1"
      using assms(2) by (simp add: distinct_count_atmost_1)
    ultimately have "count (mset (map f xs)) a = 1"
      by linarith
    then show ?thesis
      using True by (simp only: if_True)
  next
    case False
    then show ?thesis
      by (metis count_eq_zero_iff set_mset_mset)
  qed
  then show ?thesis
    by (simp only: distinct_count_atmost_1) simp
qed

lemma excluded_row_submset:
  assumes "w \<in> set db" and "\<not> p w"
  shows "mset (w # select_random rs p n db) \<subseteq># mset db"
proof -
  have part: "mset db = filter_mset p (mset db) + filter_mset (\<lambda>r. \<not> p r) (mset db)"
    by (rule multiset_partition)
  have "w \<in># filter_mset (\<lambda>r. \<not> p r) (mset db)"
    using assms by simp
  then have "{#w#} \<subseteq># filter_mset (\<lambda>r. \<not> p r) (mset db)"
    by simp
  moreover have "mset (select_random rs p n db) \<subseteq># filter_mset p (mset db)"
    using mset_select_random [of rs p n db] by simp
  ultimately have "mset (select_random rs p n db) + {#w#}
      \<subseteq># filter_mset p (mset db) + filter_mset (\<lambda>r. \<not> p r) (mset db)"
    by (rule subset_mset.add_mono [rotated])
  then show ?thesis
    using part by simp
qed


lemma length_filter_mono:
  "(\<And>x. x \<in> set xs \<Longrightarrow> P x \<Longrightarrow> Q x) \<Longrightarrow> length (filter P xs) \<le> length (filter Q xs)"
  by (induction xs) auto

lemma length_filter_strict:
  assumes "\<And>x. x \<in> set xs \<Longrightarrow> P x \<Longrightarrow> Q x" and "w \<in> set xs" and "Q w" and "\<not> P w"
  shows "length (filter P xs) < length (filter Q xs)"
proof -
  have "filter P (filter Q xs) = filter P xs"
    using assms(1) by (induction xs) auto
  moreover have "length (filter P (filter Q xs)) < length (filter Q xs)"
    using assms(2-4) by (intro length_filter_less [of w]) auto
  ultimately show ?thesis
    by simp
qed

lemma candidates_le_same_type_others:
  assumes "wf_words db" and "w \<in> set db"
  shows "length (wrong_answer_candidates db w)
           \<le> length (filter (\<lambda>r. w_id r \<noteq> w_id w \<and> word_type r = word_type w) db)"
proof (cases "word_type w = ''phrase''")
  case True
  have "w_id r \<noteq> w_id w" if "r \<in> set db" "russian r \<noteq> russian w" for r
  proof
    assume "w_id r = w_id w"
    moreover have "inj_on w_id (set db)"
      using assms(1) by (simp add: wf_words_def distinct_map)
    ultimately have "r = w"
      using that(1) assms(2) by (auto dest: inj_onD)
    then show False
      using that(2) by simp
  qed
  then show ?thesis
    using True by (auto simp: wrong_answer_candidates_def intro!: length_filter_mono)
next
  case False
  then show ?thesis
    by (simp add: wrong_answer_candidates_def)
qed

lemma candidates_less_category:
  assumes "w \<in> set db"
  shows "length (wrong_answer_candidates db w)
           < length (filter (\<lambda>r. word_type r = word_type w) db)"
  unfolding wrong_answer_candidates_def using assms
  by (auto intro!: length_filter_strict [where w = w])

lemma length_unshuffled_answers:
  assumes "wf_words db" and "w \<in> set db" and "3 \<le> length (wrong_answer_candidates db w)"
  shows "length (unshuffled_answers g db w) = 4"
proof (cases "rng_direction g")
  case True
  then show ?thesis
    using assms(3) by (simp add: unshuffled_answers_def length_generate_wrong_answers)
next
  case False
  have "3 \<le> length (filter (\<lambda>r. w_id r \<noteq> w_id w \<and> word_type r = word_type w) db)"
    using candidates_le_same_type_others [OF assms(1,2)] assms(3) by linarith
  then show ?thesis
    using False by (simp add: unshuffled_answers_def length_select_random)
qed

section \<open>The quiz generator\<close>

text \<open>
  C3. In every quiz returned by \<^verbatim>\<open>generate_quiz\<close>, the answer at position
  \<^verbatim>\<open>correct_index\<close> of the shuffled list is the correct answer for the chosen
  direction: the \<^verbatim>\<open>russian\<close> field of the sampled word for GR\<rightarrow>RU, its
  \<^verbatim>\<open>greek\<close> field for RU\<rightarrow>GR. The index is inside the list.
\<close>

theorem generate_quiz_correct_index:
  assumes "generate_quiz g db = Inr (Some q)"
  shows "\<exists>w. select_random_word (rng_word g) db = Some w \<and> q_word_id q = w_id w
           \<and> (direction q = GR_RU \<or> direction q = RU_GR)
           \<and> 0 \<le> correct_index q \<and> nat (correct_index q) < length (answers q)
           \<and> answers q ! nat (correct_index q)
               = (if direction q = GR_RU then russian w else greek w)"
proof -
  from generate_quiz_SomeD [OF assms] obtain w i where
    w: "select_random_word (rng_word g) db = Some w" "q_word_id q = w_id w"
    and i: "list_index (answers q) (if rng_direction g then russian w else greek w) = Some i"
      "correct_index q = int i"
    and d: "direction q = (if rng_direction g then GR_RU else RU_GR)"
    by blast
  from list_index_Some [OF i(1)]
  have "i < length (answers q)"
    and "answers q ! i = (if rng_direction g then russian w else greek w)"
    by simp_all
  then show ?thesis
    using w i(2) d GR_RU_neq by (cases "rng_direction g") auto
qed

theorem generate_quiz_correct_index_witness:
  "generate_quiz (fixed_rng False) four_nouns \<noteq> Inr None \<and>
   (\<exists>w. select_random_word [] four_nouns = Some w \<and> w_id w = 1
      \<and> [''spiti'', ''nero'', ''psomi'', ''gala''] ! 1 = greek w)"
proof -
  have ev: "generate_quiz (fixed_rng False) four_nouns =
      Inr (Some \<lparr>q_word_id = 1, question = ''voda'',
                 answers = [''spiti'', ''nero'', ''psomi'', ''gala''],
                 correct_index = 1, direction = RU_GR, q_word_type = ''noun''\<rparr>)"
    by (simp add: quiz_eval_defs)
  show ?thesis
    using generate_quiz_correct_index [OF ev] ev GR_RU_neq by (auto simp: fixed_rng_def)
qed

text \<open>
  C2. \<^verbatim>\<open>generate_quiz\<close> returns \<^verbatim>\<open>None\<close> exactly when the vocabulary is empty or
  fewer than 3 rows qualify as distractors for the sampled word; a quiz that is returned
  has exactly 4 answers, in both directions; a category with fewer than 4 members yields
  \<^verbatim>\<open>None\<close>; and the call never raises. The ids of the vocabulary are a primary key.
\<close>

theorem generate_quiz_insufficient_iff:
  assumes "wf_words db"
  shows "(generate_quiz g db = Inr None \<longleftrightarrow>
            db = [] \<or> (\<exists>w. select_random_word (rng_word g) db = Some w
                         \<and> length (wrong_answer_candidates db w) < 3))
       \<and> (\<forall>q. generate_quiz g db = Inr (Some q) \<longrightarrow> length (answers q) = 4)
       \<and> (\<forall>w. select_random_word (rng_word g) db = Some w
               \<and> length (filter (\<lambda>r. word_type r = word_type w) db) < 4
             \<longrightarrow> generate_quiz g db = Inr None)
       \<and> (\<forall>e. generate_quiz g db \<noteq> Inl e)"
proof (intro conjI allI impI)
  show "generate_quiz g db = Inr None \<longleftrightarrow>
          db = [] \<or> (\<exists>w. select_random_word (rng_word g) db = Some w
                       \<and> length (wrong_answer_candidates db w) < 3)"
    by (rule generate_quiz_None_iff)
next
  fix q
  assume "generate_quiz g db = Inr (Some q)"
  from generate_quiz_SomeD [OF this] obtain w where
    w: "select_random_word (rng_word g) db = Some w"
      "3 \<le> length (wrong_answer_candidates db w)"
      "answers q = random_order (rng_shuffle g) (unshuffled_answers g db w)"
    by blast
  have "w \<in> set db"
    using w(1) by (rule select_random_word_mem)
  then show "length (answers q) = 4"
    using w(2,3) assms by (simp add: length_random_order length_unshuffled_answers)
next
  fix w
  assume a: "select_random_word (rng_word g) db = Some w
     \<and> length (filter (\<lambda>r. word_type r = word_type w) db) < 4"
  then have "w \<in> set db"
    by (auto dest: select_random_word_mem)
  from candidates_less_category [OF this] a
  have "length (wrong_answer_candidates db w) < 3"
    by linarith
  then show "generate_quiz g db = Inr None"
    using a by (auto simp: generate_quiz_None_iff)
next
  fix e
  show "generate_quiz g db \<noteq> Inl e"
    by (rule generate_quiz_no_error)
qed

theorem generate_quiz_insufficient_iff_witness:
  "wf_words four_nouns \<and> wf_words (take 3 four_nouns)
   \<and> generate_quiz (fixed_rng False) four_nouns \<noteq> Inr None
   \<and> length [''spiti'', ''nero'', ''psomi'', ''gala''] = 4
   \<and> generate_quiz (fixed_rng False) (take 3 four_nouns) = Inr None"
proof -
  have wf4: "wf_words four_nouns" and wf3: "wf_words (take 3 four_nouns)"
    by (simp_all add: wf_words_def four_nouns_def mk_word_def)
  have ev: "generate_quiz (fixed_rng False) four_nouns =
      Inr (Some \<lparr>q_word_id = 1, question = ''voda'',
                 answers = [''spiti'', ''nero'', ''psomi'', ''gala''],
                 correct_index = 1, direction = RU_GR, q_word_type = ''noun''\<rparr>)"
    by (simp add: quiz_eval_defs)
  have sel: "select_random_word (rng_word (fixed_rng False)) (take 3 four_nouns)
               = Some (mk_word 1 ''nero'' ''voda'' ''noun'')"
    by (simp add: quiz_eval_defs)
  have few: "length (filter (\<lambda>r. word_type r = word_type (mk_word 1 ''nero'' ''voda'' ''noun''))
                      (take 3 four_nouns)) < 4"
    by (simp add: four_nouns_def mk_word_def)
  show ?thesis
    using generate_quiz_insufficient_iff [OF wf4, of "fixed_rng False"]
      generate_quiz_insufficient_iff [OF wf3, of "fixed_rng False"] ev sel few wf4 wf3
    by auto
qed

lemma count_list_distinct: "distinct xs \<Longrightarrow> x \<in> set xs \<Longrightarrow> count_list xs x = 1"
  by (induction xs) (auto simp: count_list_0_iff)

lemma select_random_filter:
  assumes "\<And>r. p r \<Longrightarrow> c r"
  shows "select_random rs p n (filter c db) = select_random rs p n db"
proof -
  have "filter p (filter c db) = filter p db"
    using assms by (induction db) auto
  then show ?thesis
    by (simp add: select_random_def)
qed

text \<open>
  The distractor queries compare ids (texts for phrases) with the sampled word only and
  never compare two answers with each other. So the answers are pairwise different when
  the rows of the category of the sampled word have pairwise different strings in the
  field the answers are taken from (\<^verbatim>\<open>russian\<close> for GR\<rightarrow>RU, \<^verbatim>\<open>greek\<close> for RU\<rightarrow>GR).
\<close>

lemma generate_quiz_answers_distinct:
  assumes "generate_quiz g db = Inr (Some q)"
    and "distinct (map (if direction q = GR_RU then russian else greek)
                     (filter (\<lambda>r. word_type r = q_word_type q) db))"
  shows "distinct (answers q)
       \<and> (\<exists>w. select_random_word (rng_word g) db = Some w
              \<and> count_list (answers q) (if direction q = GR_RU then russian w else greek w) = 1)"
proof -
  from generate_quiz_SomeD [OF assms(1)] obtain w i where
    w: "select_random_word (rng_word g) db = Some w"
    and a: "answers q = random_order (rng_shuffle g) (unshuffled_answers g db w)"
    and i: "list_index (answers q) (if rng_direction g then russian w else greek w) = Some i"
    and d: "direction q = (if rng_direction g then GR_RU else RU_GR)"
    and t: "q_word_type q = word_type w"
    by blast
  let ?cat = "filter (\<lambda>r. word_type r = word_type w) db"
  have "w \<in> set db"
    using w by (rule select_random_word_mem)
  then have mem: "w \<in> set ?cat"
    by simp
  have "distinct (unshuffled_answers g db w)"
  proof (cases "rng_direction g")
    case True
    let ?p = "if word_type w = ''phrase''
              then (\<lambda>r. russian r \<noteq> russian w \<and> word_type r = ''phrase'')
              else (\<lambda>r. w_id r \<noteq> w_id w \<and> word_type r = word_type w)"
    have "unshuffled_answers g db w = map russian (w # select_random (rng_wrong g) ?p 3 db)"
      using True by (simp add: unshuffled_answers_def generate_wrong_answers_def
          generate_wrong_answers_for_phrase_def generate_wrong_answers_for_word_def)
    also have "select_random (rng_wrong g) ?p 3 db = select_random (rng_wrong g) ?p 3 ?cat"
      by (rule select_random_filter [symmetric]) (simp split: if_splits)
    finally have "unshuffled_answers g db w
                    = map russian (w # select_random (rng_wrong g) ?p 3 ?cat)" .
    moreover have "mset (w # select_random (rng_wrong g) ?p 3 ?cat) \<subseteq># mset ?cat"
      using mem by (intro excluded_row_submset) auto
    moreover have "distinct (map russian ?cat)"
      using assms(2) d t True by simp
    ultimately show ?thesis
      by (simp only: distinct_map_submset)
  next
    case False
    let ?p = "\<lambda>r. w_id r \<noteq> w_id w \<and> word_type r = word_type w"
    have "unshuffled_answers g db w = map greek (w # select_random (rng_greek g) ?p 3 db)"
      using False by (simp add: unshuffled_answers_def)
    also have "select_random (rng_greek g) ?p 3 db = select_random (rng_greek g) ?p 3 ?cat"
      by (rule select_random_filter [symmetric]) simp
    finally have "unshuffled_answers g db w
                    = map greek (w # select_random (rng_greek g) ?p 3 ?cat)" .
    moreover have "mset (w # select_random (rng_greek g) ?p 3 ?cat) \<subseteq># mset ?cat"
      using mem by (intro excluded_row_submset) auto
    moreover have "distinct (map greek ?cat)"
      using assms(2) d t False GR_RU_neq by simp
    ultimately show ?thesis
      by (simp only: distinct_map_submset)
  qed
  then have dis: "distinct (answers q)"
    by (simp add: a distinct_random_order)
  have "(if rng_direction g then russian w else greek w) \<in> set (answers q)"
    using i by (metis list_index_None_iff option.distinct(1))
  then have "count_list (answers q) (if rng_direction g then russian w else greek w) = 1"
    using dis by (simp add: count_list_distinct)
  then show ?thesis
    using dis w d GR_RU_neq by (cases "rng_direction g") auto
qed

text \<open>
  C1 fails on a vocabulary that the program builds itself. \<^verbatim>\<open>main\<close> adds the test words
  at every start and nothing keeps a word from being stored twice, so after the second
  start the table holds the nouns \<^verbatim>\<open>nero\<close> and \<^verbatim>\<open>spiti\<close> under the ids 3, 6, 11 and
  14. When the word 3 is drawn and the question is asked from Greek, the distractor
  query excludes the id 3 only and returns the rows 6, 11 and 14: the four answers are
  the translation of \<^verbatim>\<open>nero\<close> twice and that of \<^verbatim>\<open>spiti\<close> twice. After the first start
  alone no category has four rows and no quiz is generated.
\<close>

theorem generate_quiz_duplicates_after_restart:
  "generate_quiz \<lparr>rng_word = [2], rng_wrong = [], rng_direction = True, rng_greek = [],
                   rng_shuffle = []\<rparr> (add_test_data (add_test_data []))
     = Inr (Some \<lparr>q_word_id = 3, question = gr_nero,
                  answers = [ru_voda, ru_dom, ru_voda, ru_dom],
                  correct_index = 0, direction = GR_RU, q_word_type = ''noun''\<rparr>)
   \<and> wf_words (add_test_data (add_test_data []))
   \<and> map w_id (filter (\<lambda>r. word_type r = ''noun'') (add_test_data (add_test_data [])))
       = [3, 6, 11, 14]
   \<and> \<not> distinct [ru_voda, ru_dom, ru_voda, ru_dom]
   \<and> count_list [ru_voda, ru_dom, ru_voda, ru_dom] ru_voda = 2
   \<and> generate_quiz \<lparr>rng_word = [2], rng_wrong = [], rng_direction = True, rng_greek = [],
                     rng_shuffle = []\<rparr> (add_test_data [])
       = Inr None"
  by (simp add: quiz_eval_defs wf_words_def ru_dom_def ru_voda_def)

section \<open>Recording answers\<close>

lemma stat_key_update [simp]:
  "stat_key (r\<lparr>correct_answers := c, total_answers := t, last_asked := l\<rparr>) = stat_key r"
  by (simp add: stat_key_def)

lemma map_stat_key_update:
  "map stat_key (update_user_stat c t now uid wid tbl) = map stat_key tbl"
  by (induction tbl) (auto simp: update_user_stat_def)

lemma select_user_stat_Nil_iff:
  "select_user_stat tbl uid wid = [] \<longleftrightarrow> (uid, wid) \<notin> set (map stat_key tbl)"
  by (induction tbl) (auto simp: select_user_stat_def stat_key_def)

lemma update_absent:
  "(uid, wid) \<notin> set (map stat_key tbl) \<Longrightarrow> update_user_stat c t now uid wid tbl = tbl"
  by (induction tbl) (auto simp: update_user_stat_def stat_key_def)

lemma select_absent:
  "(uid, wid) \<notin> set (map stat_key tbl) \<Longrightarrow> select_user_stat tbl uid wid = []"
  by (simp add: select_user_stat_Nil_iff)

lemma select_user_stat_unique:
  assumes "wf_stats tbl" and "select_user_stat tbl uid wid = r # rs"
  shows "rs = []"
  using assms
proof (induction tbl arbitrary: r rs)
  case Nil
  then show ?case by (simp add: select_user_stat_def)
next
  case (Cons a tbl)
  show ?case
  proof (cases "stat_key a = (uid, wid)")
    case True
    then have "(uid, wid) \<notin> set (map stat_key tbl)"
      using Cons.prems(1) by (auto simp: wf_stats_def)
    then have "select_user_stat tbl uid wid = []"
      by (rule select_absent)
    then show ?thesis
      using Cons.prems(2) True by (auto simp: select_user_stat_def stat_key_def)
  next
    case False
    then have "select_user_stat (a # tbl) uid wid = select_user_stat tbl uid wid"
      by (auto simp: select_user_stat_def stat_key_def)
    with Cons.prems(2) have "select_user_stat tbl uid wid = r # rs"
      by simp
    moreover have "wf_stats tbl"
      using Cons.prems(1) by (simp add: wf_stats_def)
    ultimately show ?thesis
      using Cons.IH by blast
  qed
qed

lemma select_other_update:
  "(u, w) \<noteq> (uid, wid) \<Longrightarrow>
     select_user_stat (update_user_stat c t now uid wid tbl) u w = select_user_stat tbl u w"
  by (induction tbl) (auto simp: update_user_stat_def select_user_stat_def)

lemma select_same_update:
  "select_user_stat (update_user_stat c t now uid wid tbl) uid wid
     = map (\<lambda>r. r\<lparr>correct_answers := c, total_answers := t, last_asked := Some now\<rparr>)
         (select_user_stat tbl uid wid)"
  by (induction tbl) (auto simp: update_user_stat_def select_user_stat_def)

lemma user_rows_update:
  "filter (\<lambda>r. s_user_id r = u) (update_user_stat c t now uid wid tbl)
     = update_user_stat c t now uid wid (filter (\<lambda>r. s_user_id r = u) tbl)"
  by (induction tbl) (auto simp: update_user_stat_def)

lemma sum_update:
  assumes "distinct (map stat_key tbl)" and "r \<in> set tbl" and "stat_key r = (uid, wid)"
  shows "sum_list (map total_answers (update_user_stat c t now uid wid tbl))
           = sum_list (map total_answers tbl) - total_answers r + t
       \<and> sum_list (map correct_answers (update_user_stat c t now uid wid tbl))
           = sum_list (map correct_answers tbl) - correct_answers r + c"
  using assms
proof (induction tbl)
  case Nil
  then show ?case by simp
next
  case (Cons a tbl)
  show ?case
  proof (cases "a = r")
    case True
    then have "(uid, wid) \<notin> set (map stat_key tbl)"
      using Cons.prems(1,3) by auto
    then have "update_user_stat c t now uid wid tbl = tbl"
      by (rule update_absent)
    then show ?thesis
      using True Cons.prems(3)
      by (simp add: update_user_stat_def stat_key_def)
  next
    case False
    then have r: "r \<in> set tbl"
      using Cons.prems(2) by simp
    then have "stat_key a \<noteq> (uid, wid)"
      using Cons.prems(1,3) by (metis distinct.simps(2) image_eqI list.simps(9) set_map)
    then have "update_user_stat c t now uid wid (a # tbl)
                 = a # update_user_stat c t now uid wid tbl"
      by (auto simp: update_user_stat_def stat_key_def)
    then show ?thesis
      using Cons.IH [OF _ r Cons.prems(3)] Cons.prems(1) by simp
  qed
qed


lemma select_user_stat_mem:
  "select_user_stat tbl uid wid = r # rs \<Longrightarrow> r \<in> set tbl \<and> stat_key r = (uid, wid)"
proof -
  assume "select_user_stat tbl uid wid = r # rs"
  then have "r \<in> set (filter (\<lambda>r. s_user_id r = uid \<and> s_word_id r = wid) tbl)"
    by (simp add: select_user_stat_def)
  then show ?thesis
    by (simp add: stat_key_def)
qed

lemma record_answer_insert:
  assumes "select_user_stat tbl uid wid = []"
  shows "record_answer now uid wid c tbl =
           Inr (tbl @ [\<lparr>s_id = fold max (map s_id tbl) 0 + 1, s_user_id = uid, s_word_id = wid,
                        correct_answers = (if c then 1 else 0), total_answers = 1,
                        last_asked = Some now, difficulty_multiplier = 1\<rparr>])"
  using assms select_user_stat_Nil_iff [of tbl uid wid]
  by (simp add: record_answer_def record_answer_write_def insert_user_stat_def)

lemma record_answer_update:
  assumes "select_user_stat tbl uid wid = r # rs"
  shows "record_answer now uid wid c tbl =
           Inr (update_user_stat (correct_answers r + (if c then 1 else 0))
                  (total_answers r + 1) now uid wid tbl)"
  using assms by (simp add: record_answer_def record_answer_write_def Let_def)

lemma select_user_stat_append:
  "select_user_stat (tbl @ [r]) u w
     = select_user_stat tbl u w @ (if stat_key r = (u, w) then [r] else [])"
  by (auto simp: select_user_stat_def stat_key_def)

lemma stats_invariant_update:
  assumes "stats_invariant tbl" and "0 \<le> c" and "c \<le> t"
  shows "stats_invariant (update_user_stat c t now uid wid tbl)"
  using assms by (auto simp: stats_invariant_def update_user_stat_def)

lemma record_answer_effect:
  assumes "wf_stats tbl"
  shows "\<exists>tbl' r'. record_answer now uid wid c tbl = Inr tbl'
           \<and> wf_stats tbl'
           \<and> select_user_stat tbl' uid wid = [r']
           \<and> total_answers r'
               = (case select_user_stat tbl uid wid of [] \<Rightarrow> 0 | r # _ \<Rightarrow> total_answers r) + 1
           \<and> correct_answers r'
               = (case select_user_stat tbl uid wid of [] \<Rightarrow> 0 | r # _ \<Rightarrow> correct_answers r)
                   + (if c then 1 else 0)
           \<and> last_asked r' = Some now
           \<and> (\<forall>u w. (u, w) \<noteq> (uid, wid) \<longrightarrow>
                  select_user_stat tbl' u w = select_user_stat tbl u w)
           \<and> length tbl' = length tbl + (if select_user_stat tbl uid wid = [] then 1 else 0)
           \<and> (stats_invariant tbl \<longrightarrow> stats_invariant tbl')"
proof (cases "select_user_stat tbl uid wid")
  case Nil
  let ?new = "\<lparr>s_id = fold max (map s_id tbl) 0 + 1, s_user_id = uid, s_word_id = wid,
               correct_answers = (if c then 1 else 0), total_answers = 1,
               last_asked = Some now, difficulty_multiplier = 1\<rparr>"
  have ra: "record_answer now uid wid c tbl = Inr (tbl @ [?new])"
    using Nil by (rule record_answer_insert)
  have key: "stat_key ?new = (uid, wid)"
    by (simp add: stat_key_def)
  have "(uid, wid) \<notin> set (map stat_key tbl)"
    using Nil by (simp add: select_user_stat_Nil_iff)
  then have wf: "wf_stats (tbl @ [?new])"
    using assms key by (simp add: wf_stats_def)
  have sel: "select_user_stat (tbl @ [?new]) uid wid = [?new]"
    using Nil key by (simp add: select_user_stat_append)
  have other: "select_user_stat (tbl @ [?new]) u w = select_user_stat tbl u w"
    if "(u, w) \<noteq> (uid, wid)" for u w
    using that key by (auto simp: select_user_stat_append)
  have inv: "stats_invariant (tbl @ [?new])" if "stats_invariant tbl"
    using that by (simp add: stats_invariant_def)
  show ?thesis
    using ra wf sel other inv Nil by (intro exI [of _ "tbl @ [?new]"] exI [of _ ?new]) simp
next
  case (Cons r rs)
  let ?c = "correct_answers r + (if c then 1 else 0)"
  let ?t = "total_answers r + 1"
  let ?tbl = "update_user_stat ?c ?t now uid wid tbl"
  let ?r = "r\<lparr>correct_answers := ?c, total_answers := ?t, last_asked := Some now\<rparr>"
  have ra: "record_answer now uid wid c tbl = Inr ?tbl"
    using Cons by (rule record_answer_update)
  have rs: "rs = []"
    using assms Cons by (rule select_user_stat_unique)
  have wf: "wf_stats ?tbl"
    using assms by (simp add: wf_stats_def map_stat_key_update)
  have sel: "select_user_stat ?tbl uid wid = [?r]"
    using Cons rs by (simp add: select_same_update)
  have other: "select_user_stat ?tbl u w = select_user_stat tbl u w"
    if "(u, w) \<noteq> (uid, wid)" for u w
    using that by (rule select_other_update)
  have len: "length ?tbl = length tbl"
    by (simp add: update_user_stat_def)
  have inv: "stats_invariant ?tbl" if "stats_invariant tbl"
  proof -
    have "r \<in> set tbl"
      using Cons by (simp add: select_user_stat_mem)
    then have "0 \<le> correct_answers r \<and> correct_answers r \<le> total_answers r"
      using that by (simp add: stats_invariant_def)
    then show ?thesis
      using that by (intro stats_invariant_update) auto
  qed
  show ?thesis
    using ra wf sel other len inv Cons by (intro exI [of _ ?tbl] exI [of _ ?r]) simp
qed


text \<open>
  C4. On a table that satisfies its uniqueness constraint, \<^verbatim>\<open>record_answer\<close> returns
  normally and leaves exactly one row for the pair \<open>(user_id, word_id)\<close>, created if
  there was none: its \<^verbatim>\<open>total_answers\<close> is the previous value (0 for a new row) plus 1,
  its \<^verbatim>\<open>correct_answers\<close> the previous value plus 1 if the answer was correct and plus
  0 otherwise, and its \<^verbatim>\<open>last_asked\<close> the current time. The rows of every other pair
  are untouched, the constraint still holds, and \<open>0 \<le> correct_answers \<le> total_answers\<close>
  in every row is preserved.
\<close>

theorem record_answer_upsert:
  assumes "wf_stats tbl"
  shows "\<exists>tbl' r'. record_answer now uid wid c tbl = Inr tbl'
           \<and> wf_stats tbl'
           \<and> select_user_stat tbl' uid wid = [r']
           \<and> total_answers r'
               = (case select_user_stat tbl uid wid of [] \<Rightarrow> 0 | r # _ \<Rightarrow> total_answers r) + 1
           \<and> correct_answers r'
               = (case select_user_stat tbl uid wid of [] \<Rightarrow> 0 | r # _ \<Rightarrow> correct_answers r)
                   + (if c then 1 else 0)
           \<and> last_asked r' = Some now
           \<and> (\<forall>u w. (u, w) \<noteq> (uid, wid) \<longrightarrow>
                  select_user_stat tbl' u w = select_user_stat tbl u w)
           \<and> length tbl' = length tbl + (if select_user_stat tbl uid wid = [] then 1 else 0)
           \<and> (stats_invariant tbl \<longrightarrow> stats_invariant tbl')"
  using assms by (rule record_answer_effect)

theorem record_answer_upsert_witness:
  "wf_stats [mk_stat 1 7 3 1 2] \<and> stats_invariant [mk_stat 1 7 3 1 2]
   \<and> (\<exists>tbl' r'. record_answer 100 7 3 True [mk_stat 1 7 3 1 2] = Inr tbl'
          \<and> select_user_stat tbl' 7 3 = [r'] \<and> total_answers r' = 3 \<and> correct_answers r' = 2
          \<and> last_asked r' = Some 100 \<and> length tbl' = 1 \<and> stats_invariant tbl')"
proof -
  have wf: "wf_stats [mk_stat 1 7 3 1 2]"
    by (simp add: wf_stats_def)
  have inv: "stats_invariant [mk_stat 1 7 3 1 2]"
    by (simp add: stats_invariant_def mk_stat_def)
  have sel: "select_user_stat [mk_stat 1 7 3 1 2] 7 3 = [mk_stat 1 7 3 1 2]"
    by (simp add: select_user_stat_def mk_stat_def)
  show ?thesis
    using record_answer_upsert [OF wf, of 100 7 3 True] wf inv sel
    by (auto simp: mk_stat_def)
qed

section \<open>The answer checker and the handlers\<close>

lemma generate_quiz_index_range:
  assumes "generate_quiz g db = Inr (Some q)" and "wf_words db"
  shows "0 \<le> correct_index q \<and> correct_index q < 4"
proof -
  from generate_quiz_SomeD [OF assms(1)] obtain w i where
    w: "select_random_word (rng_word g) db = Some w"
      "3 \<le> length (wrong_answer_candidates db w)"
      "answers q = random_order (rng_shuffle g) (unshuffled_answers g db w)"
    and i: "list_index (answers q) (if rng_direction g then russian w else greek w) = Some i"
      "correct_index q = int i"
    by blast
  have "w \<in> set db"
    using w(1) by (rule select_random_word_mem)
  then have "length (answers q) = 4"
    using w(2,3) assms(2) by (simp add: length_random_order length_unshuffled_answers)
  moreover have "i < length (answers q)"
    using list_index_Some [OF i(1)] by simp
  ultimately show ?thesis
    using i(2) by simp
qed

text \<open>
  C6. \<^verbatim>\<open>check_answer\<close> is true exactly when the selected index equals
  \<^verbatim>\<open>correct_index\<close>; so it is true at \<^verbatim>\<open>correct_index\<close> itself and false at every other
  integer. It is a function of its two arguments only, returns a truth value for every
  integer and touches no state. For a quiz returned by \<^verbatim>\<open>generate_quiz\<close> the correct
  index lies in \<open>0..3\<close>, so a negative index or one beyond the list is answered false.
\<close>

theorem check_answer_iff:
  "(check_answer q i \<longleftrightarrow> i = correct_index q)
   \<and> check_answer q (correct_index q)
   \<and> (generate_quiz g db = Inr (Some q) \<and> wf_words db \<and> (i < 0 \<or> 4 \<le> i)
        \<longrightarrow> \<not> check_answer q i)"
  using generate_quiz_index_range [of g db q] by (auto simp: check_answer_def)

theorem check_answer_iff_witness:
  "generate_quiz (fixed_rng True) four_nouns \<noteq> Inr None \<and> wf_words four_nouns
   \<and> \<not> check_answer \<lparr>q_word_id = 1, question = ''nero'',
          answers = [''dom'', ''voda'', ''hleb'', ''moloko''],
          correct_index = 1, direction = GR_RU, q_word_type = ''noun''\<rparr> (- 1)"
proof -
  let ?q = "\<lparr>q_word_id = 1, question = ''nero'',
             answers = [''dom'', ''voda'', ''hleb'', ''moloko''],
             correct_index = 1, direction = GR_RU, q_word_type = ''noun''\<rparr>"
  have ev: "generate_quiz (fixed_rng True) four_nouns = Inr (Some ?q)"
    by (simp add: quiz_eval_defs)
  have wf: "wf_words four_nouns"
    by (simp add: wf_words_def four_nouns_def mk_word_def)
  show ?thesis
    using check_answer_iff [of ?q "- 1" "fixed_rng True" four_nouns] ev wf by simp
qed

lemma quiz_command_frame:
  "users (state (quiz_command g u s)) = users s
   \<and> user_stats (state (quiz_command g u s)) = user_stats s
   \<and> words (state (quiz_command g u s)) = words s
   \<and> raised (quiz_command g u s) = None"
  by (auto simp: quiz_command_def generate_quiz_no_error split: sum.splits option.splits)

lemma session_active_insert:
  "users s' = insert_or_replace_user now u tbl \<Longrightarrow> session_active s' (tg_id u)"
  by (simp add: session_active_def insert_or_replace_user_def)

lemma deactivate_session_inactive:
  "\<not> session_active (s\<lparr>users := deactivate_session uid (users s)\<rparr>) uid"
  by (simp add: session_active_def deactivate_session_def split: option.splits)

text \<open>
  C7. The session flag of a user is a two-state machine. A start request while the flag
  is active leaves the whole state unchanged and replies with the warning only, without
  raising. A start request while it is inactive sets it active and announces the
  session. A stop request always leaves the flag inactive and replies with the final
  statistics of that user.
\<close>

theorem session_state_machine:
  "(session_active s (tg_id u) \<longrightarrow>
      quiz_session_command now g u s
        = \<lparr>state = s, calls = [ReplyText SessionAlreadyActive []], raised = None\<rparr>)
   \<and> (\<not> session_active s (tg_id u) \<longrightarrow>
        session_active (state (quiz_session_command now g u s)) (tg_id u)
      \<and> hd (calls (quiz_session_command now g u s)) = ReplyText SessionStarted []
      \<and> raised (quiz_session_command now g u s) = None)
   \<and> \<not> session_active (state (stop_command u s)) (tg_id u)
   \<and> calls (stop_command u s)
       = [ReplyText (SessionStopped (get_user_stats (user_stats s) (tg_id u))) []]
   \<and> raised (stop_command u s) = None"
proof -
  let ?s1 = "s\<lparr>users := insert_or_replace_user now u (users s)\<rparr>"
  have "session_active (state (quiz_command g u ?s1)) (tg_id u)"
    using quiz_command_frame [of g u ?s1] by (intro session_active_insert) simp
  moreover have "raised (quiz_command g u ?s1) = None"
    using quiz_command_frame [of g u ?s1] by simp
  ultimately show ?thesis
    by (simp add: quiz_session_command_def stop_command_def Let_def
        deactivate_session_inactive)
qed


theorem session_state_machine_witness:
  "session_active (sample_state 1) (tg_id sample_user)
   \<and> quiz_session_command 100 (fixed_rng True) sample_user (sample_state 1)
       = \<lparr>state = sample_state 1, calls = [ReplyText SessionAlreadyActive []], raised = None\<rparr>
   \<and> \<not> session_active (sample_state 0) (tg_id sample_user)
   \<and> session_active (state (quiz_session_command 100 (fixed_rng True) sample_user (sample_state 0)))
       (tg_id sample_user)
   \<and> \<not> session_active (state (stop_command sample_user (sample_state 1))) (tg_id sample_user)"
proof -
  have a1: "session_active (sample_state 1) (tg_id sample_user)"
    and a0: "\<not> session_active (sample_state 0) (tg_id sample_user)"
    by (simp_all add: session_active_def sample_state_def sample_user_def sample_row_def)
  show ?thesis
    using session_state_machine [of "sample_state 1" sample_user 100 "fixed_rng True"]
      session_state_machine [of "sample_state 0" sample_user 100 "fixed_rng True"] a1 a0
    by simp
qed

text \<open>
  C8. An answer from a user who has no stored current quiz is acknowledged and replied
  to with the request to ask for a new quiz, and nothing else happens: the state after
  the handler is the state before it (no statistics row is created or updated, the
  session flag is untouched), and no exception is raised.
\<close>

theorem answer_without_quiz:
  assumes "current_quiz s (tg_id u) = None"
  shows "answer_callback now g u i s
           = \<lparr>state = s, calls = [AnswerCallbackQuery, EditMessageText QuizDataNotFound],
              raised = None\<rparr>"
  using assms by (simp add: answer_callback_def)

theorem answer_without_quiz_witness:
  "current_quiz (sample_state 1) (tg_id sample_user) = None
   \<and> answer_callback 100 (fixed_rng True) sample_user 2 (sample_state 1)
       = \<lparr>state = sample_state 1,
          calls = [AnswerCallbackQuery, EditMessageText QuizDataNotFound], raised = None\<rparr>"
proof -
  have h: "current_quiz (sample_state 1) (tg_id sample_user) = None"
    by (simp add: sample_state_def)
  show ?thesis
    using answer_without_quiz [OF h, of 100 "fixed_rng True" 2] h by simp
qed

text \<open>
  C10. Starting a session for a user whose row exists with the flag inactive replaces
  the row: the flag becomes 1, \<^verbatim>\<open>username\<close> and \<^verbatim>\<open>first_name\<close> are taken from the
  request, and \<^verbatim>\<open>auto_quiz_enabled\<close>, \<^verbatim>\<open>questions_per_session\<close>,
  \<^verbatim>\<open>session_interval_minutes\<close>, \<^verbatim>\<open>last_auto_quiz\<close> and \<^verbatim>\<open>joined_at\<close> are reset to
  their column defaults, whatever they were. Stopping a session changes nothing but the
  flag of that row.
\<close>

theorem session_start_replaces_row:
  assumes "users s (tg_id u) = Some r"
  shows "(quiz_session_active r = 0 \<longrightarrow>
            users (state (quiz_session_command now g u s))
              = (users s)(tg_id u \<mapsto>
                  \<lparr>username = tg_username u, first_name = Some (tg_first_name u),
                   quiz_session_active = 1, auto_quiz_enabled = 1, questions_per_session = 5,
                   session_interval_minutes = 15, last_auto_quiz = None, joined_at = now\<rparr>))
       \<and> state (stop_command u s)
           = s\<lparr>users := (users s)(tg_id u \<mapsto> r\<lparr>quiz_session_active := 0\<rparr>)\<rparr>"
proof -
  let ?s1 = "s\<lparr>users := insert_or_replace_user now u (users s)\<rparr>"
  have "users (state (quiz_command g u ?s1)) = insert_or_replace_user now u (users s)"
    using quiz_command_frame [of g u ?s1] by simp
  then show ?thesis
    using assms
    by (simp add: quiz_session_command_def stop_command_def Let_def session_active_def
        insert_or_replace_user_def deactivate_session_def)
qed

theorem session_start_replaces_row_witness:
  "users (sample_state 0) (tg_id sample_user) = Some (sample_row 0)
   \<and> quiz_session_active (sample_row 0) = 0
   \<and> users (state (quiz_session_command 100 (fixed_rng True) sample_user (sample_state 0))) 7
       = Some \<lparr>username = Some ''maria'', first_name = Some ''Maria'',
               quiz_session_active = 1, auto_quiz_enabled = 1, questions_per_session = 5,
               session_interval_minutes = 15, last_auto_quiz = None, joined_at = 100\<rparr>
   \<and> users (state (stop_command sample_user (sample_state 1))) 7
       = Some \<lparr>username = Some ''maria'', first_name = Some ''Maria'',
               quiz_session_active = 0, auto_quiz_enabled = 0, questions_per_session = 10,
               session_interval_minutes = 30, last_auto_quiz = Some 50, joined_at = 1\<rparr>"
proof -
  have h0: "users (sample_state 0) (tg_id sample_user) = Some (sample_row 0)"
    and h1: "users (sample_state 1) (tg_id sample_user) = Some (sample_row 1)"
    by (simp_all add: sample_state_def sample_user_def)
  have z: "quiz_session_active (sample_row 0) = 0"
    by (simp add: sample_row_def)
  show ?thesis
    using session_start_replaces_row [OF h0, of 100 "fixed_rng True"]
      session_start_replaces_row [OF h1, of 100 "fixed_rng True"] h0 z
    by (simp add: sample_user_def sample_row_def sample_state_def)
qed

section \<open>Aggregated statistics\<close>

subsection \<open>Accuracy of the floating-point operations\<close>

text \<open>
  Rounding to an integer is off by at most a half, \<open>floor_log2\<close> is the binary exponent,
  and so \<open>binary64\<close> has a relative error of at most \<open>1 / 2 ^ 53\<close>. From there the error of
  the percentage \<^verbatim>\<open>total_correct / total_questions * 100\<close> is bounded, and the effect of
  that error on \<^verbatim>\<open>round(success_rate, 1)\<close> is determined.
\<close>

lemma round_half_even_error: "\<bar>of_int (round_half_even x) - x\<bar> \<le> 1 / 2"
proof -
  define r where "r = x - of_int \<lfloor>x\<rfloor>"
  have r: "0 \<le> r" "r < 1"
    unfolding r_def by linarith+
  have x: "x = of_int \<lfloor>x\<rfloor> + r"
    by (simp add: r_def)
  consider "r < 1 / 2" | "1 / 2 < r" | "r = 1 / 2"
    by linarith
  then show ?thesis
  proof cases
    case 1
    then have "round_half_even x = \<lfloor>x\<rfloor>"
      by (simp add: round_half_even_def r_def)
    then show ?thesis
      using 1 r by (simp add: r_def)
  next
    case 2
    then have "round_half_even x = \<lfloor>x\<rfloor> + 1"
      by (simp add: round_half_even_def r_def)
    then show ?thesis
      using 2 r by (simp add: r_def)
  next
    case 3
    then have "round_half_even x = \<lfloor>x\<rfloor> \<or> round_half_even x = \<lfloor>x\<rfloor> + 1"
      by (simp add: round_half_even_def r_def Let_def)
    then show ?thesis
      using 3 by (auto simp: r_def)
  qed
qed

lemma round_half_even_unique:
  assumes "of_int n - 1 / 2 < x" and "x < of_int n + 1 / 2"
  shows "round_half_even x = n"
proof -
  have "\<lfloor>x\<rfloor> = n \<or> \<lfloor>x\<rfloor> = n - 1"
    using assms by (cases "of_int n \<le> x") (auto simp: floor_eq_iff)
  then show ?thesis
  proof
    assume f: "\<lfloor>x\<rfloor> = n"
    then show ?thesis
      using assms unfolding round_half_even_def Let_def by simp
  next
    assume f: "\<lfloor>x\<rfloor> = n - 1"
    then show ?thesis
      using assms unfolding round_half_even_def Let_def by simp
  qed
qed

lemma two_powi_bitlen:
  assumes "0 < n"
  shows "(2::rat) powi (bitlen n - 1) \<le> of_int n" and "of_int n < (2::rat) powi bitlen n"
    and "(2::rat) powi bitlen n = 2 * 2 powi (bitlen n - 1)"
proof -
  have b: "2 ^ nat (bitlen n - 1) \<le> n" "n < 2 ^ nat (bitlen n)"
    using bitlen_bounds [OF assms] by simp_all
  have pos: "1 \<le> bitlen n"
    using assms bitlen_eq_zero_iff [of n] bitlen_nonneg [of n] by linarith
  have 1: "(2::rat) powi (bitlen n - 1) = of_int (2 ^ nat (bitlen n - 1))"
    using pos by (simp add: power_int_def)
  have 2: "(2::rat) powi bitlen n = of_int (2 ^ nat (bitlen n))"
    using pos by (simp add: power_int_def)
  show "(2::rat) powi (bitlen n - 1) \<le> of_int n"
    unfolding 1 using b(1) by (simp only: of_int_le_iff)
  show "of_int n < (2::rat) powi bitlen n"
    unfolding 2 using b(2) by (simp only: of_int_less_iff)
  show "(2::rat) powi bitlen n = 2 * 2 powi (bitlen n - 1)"
    by (simp add: power_int_diff)
qed

lemma floor_log2_bounds:
  assumes "0 < x"
  shows "2 powi floor_log2 x \<le> x \<and> x < 2 powi (floor_log2 x + 1)"
proof -
  obtain p q where pq: "quotient_of x = (p, q)"
    by (cases "quotient_of x")
  then have q: "0 < q" and x: "x = of_int p / of_int q"
    by (simp_all add: quotient_of_denom_pos quotient_of_div)
  with assms have p: "0 < p"
    by (simp add: zero_less_divide_iff)
  define a :: rat where "a = 2 powi (bitlen p - 1)"
  define b :: rat where "b = 2 powi (bitlen q - 1)"
  define d where "d = bitlen p - bitlen q"
  have a: "0 < a" "a \<le> of_int p" "of_int p < 2 * a"
    using two_powi_bitlen [OF p] by (simp_all add: a_def)
  have b: "0 < b" "b \<le> of_int q" "of_int q < 2 * b"
    using two_powi_bitlen [OF q] by (simp_all add: b_def)
  have d: "2 powi d = a / b"
    by (simp add: d_def a_def b_def power_int_diff)
  have d1: "2 powi (d + 1) = 2 * a / b" "2 powi (d - 1) = a / (2 * b)"
    using d by (simp_all add: power_int_add power_int_diff)
  have "of_int p * b < (2 * a) * of_int q"
    using a b p q by (intro mult_less_le_imp_less) simp_all
  then have "of_int p / of_int q < 2 * a / b"
    using b q by (simp add: field_simps)
  then have up: "x < 2 powi (d + 1)"
    by (simp only: x d1)
  have "a * of_int q < of_int p * (2 * b)"
    using a b p q by (intro mult_le_less_imp_less) simp_all
  then have "a / (2 * b) < of_int p / of_int q"
    using b q by (simp add: field_simps)
  then have low: "2 powi (d - 1) < x"
    by (simp only: x d1)
  have fl: "floor_log2 x = (if 2 powi d \<le> x then d else d - 1)"
    by (simp add: floor_log2_def pq d_def)
  show ?thesis
  proof (cases "2 powi d \<le> x")
    case True
    then show ?thesis
      using up fl by simp
  next
    case False
    then show ?thesis
      using low fl by simp
  qed
qed

lemma binary64_error: "\<bar>binary64 x - x\<bar> \<le> \<bar>x\<bar> / 2 ^ 53"
proof (cases "x = 0")
  case True
  then show ?thesis
    by (simp add: binary64_def)
next
  case False
  define e where "e = floor_log2 \<bar>x\<bar> - 52"
  define s :: rat where "s = 2 powi e"
  have s: "0 < s"
    by (simp add: s_def)
  have b: "binary64 x = of_int (round_half_even (x / s)) * s"
    using False by (simp add: binary64_def e_def s_def Let_def)
  have "binary64 x - x = (of_int (round_half_even (x / s)) - x / s) * s"
    using s by (simp add: b field_simps)
  then have "\<bar>binary64 x - x\<bar> = \<bar>of_int (round_half_even (x / s)) - x / s\<bar> * s"
    using s by (simp add: abs_mult)
  also have "\<dots> \<le> 1 / 2 * s"
    using round_half_even_error [of "x / s"] s by (intro mult_right_mono) simp_all
  finally have 1: "\<bar>binary64 x - x\<bar> \<le> s / 2"
    by simp
  have "2 powi floor_log2 \<bar>x\<bar> \<le> \<bar>x\<bar>"
    using floor_log2_bounds [of "\<bar>x\<bar>"] False by simp
  moreover have "(2::rat) powi floor_log2 \<bar>x\<bar> = s * 2 ^ 52"
    by (simp add: s_def e_def power_int_diff)
  ultimately have "s / 2 \<le> \<bar>x\<bar> / 2 ^ 53"
    by simp
  with 1 show ?thesis
    by linarith
qed


lemma rate_error:
  assumes "0 \<le> c" and "c \<le> t" and "0 < t"
  shows "\<bar>float_mul (true_divide c t) 100 - 100 * of_int c / of_int t\<bar> \<le> 201 / 2 ^ 53"
proof -
  define x :: rat where "x = of_int c / of_int t"
  define q where "q = true_divide c t"
  define m where "m = float_mul q 100"
  have x: "0 \<le> x" "x \<le> 1"
    using assms by (simp_all add: x_def)
  have "\<bar>q - x\<bar> \<le> \<bar>x\<bar> / 2 ^ 53"
    unfolding q_def true_divide_def x_def by (rule binary64_error)
  with x have q: "\<bar>q - x\<bar> \<le> 1 / 2 ^ 53"
    by simp
  then have q1: "\<bar>q\<bar> \<le> 1 + 1 / 2 ^ 53"
    using x by linarith
  have "\<bar>m - q * 100\<bar> \<le> \<bar>q * 100\<bar> / 2 ^ 53"
    unfolding m_def float_mul_def by (rule binary64_error)
  also have "\<bar>q * 100\<bar> = 100 * \<bar>q\<bar>"
    by (simp add: abs_mult)
  finally have m: "\<bar>m - q * 100\<bar> \<le> 100 * (1 + 1 / 2 ^ 53) / 2 ^ 53"
    using q1 by simp
  have q100: "\<bar>q * 100 - 100 * x\<bar> \<le> 100 / 2 ^ 53"
    using q by linarith
  have "100 * (1 + 1 / 2 ^ 53) / 2 ^ 53 + 100 / 2 ^ 53 \<le> (201 / 2 ^ 53 :: rat)"
    by simp
  with m q100 have "\<bar>m - 100 * x\<bar> \<le> 201 / 2 ^ 53"
    by linarith
  then show ?thesis
    by (simp add: m_def q_def x_def)
qed


lemma success_rate_near:
  assumes "0 \<le> c" and "c \<le> t" and "0 < t"
  shows "\<exists>k. py_round (float_mul (true_divide c t) 100) 1 = binary64 (of_int k / 10)
           \<and> \<bar>rat_of_int k / 10 - 100 * of_int c / of_int t\<bar> \<le> 1 / 20 + 201 / 2 ^ 53"
proof -
  define m where "m = float_mul (true_divide c t) 100"
  define k where "k = round_half_even (m * 10)"
  have m: "\<bar>m - 100 * of_int c / of_int t\<bar> \<le> 201 / 2 ^ 53"
    unfolding m_def using assms by (rule rate_error)
  have "\<bar>of_int k - m * 10\<bar> \<le> 1 / 2"
    unfolding k_def by (rule round_half_even_error)
  then have "\<bar>of_int k / 10 - m\<bar> \<le> 1 / 20"
    by linarith
  with m have "\<bar>rat_of_int k / 10 - 100 * of_int c / of_int t\<bar> \<le> 1 / 20 + 201 / 2 ^ 53"
    by linarith
  moreover have "py_round m 1 = binary64 (of_int k / 10)"
    by (simp add: py_round_def k_def)
  ultimately show ?thesis
    unfolding m_def by blast
qed

lemma round_half_even_gap:
  assumes "0 < t" and "2000 * c mod (2 * t) \<noteq> t"
  shows "\<bar>rat_of_int (round_half_even (1000 * of_int c / of_int t)) - 1000 * of_int c / of_int t\<bar>
           \<le> 1 / 2 - 1 / (2 * of_int t)"
proof -
  define x :: rat where "x = 1000 * of_int c / of_int t"
  define n where "n = round_half_even x"
  define N where "N = 2000 * c - 2 * t * n"
  have N: "of_int N = 2 * of_int t * (x - of_int n)"
    using assms(1) by (simp add: N_def x_def field_simps)
  have "\<bar>of_int n - x\<bar> \<le> 1 / 2"
    unfolding n_def by (rule round_half_even_error)
  then have "\<bar>x - of_int n\<bar> \<le> 1 / 2"
    by linarith
  then have "2 * of_int t * \<bar>x - of_int n\<bar> \<le> 2 * of_int t * (1 / 2)"
    using assms(1) by (intro mult_left_mono) simp_all
  then have "\<bar>rat_of_int N\<bar> \<le> of_int t"
    using assms(1) by (simp add: N abs_mult)
  then have le: "\<bar>N\<bar> \<le> t"
    by (metis of_int_abs of_int_le_iff)
  have "N \<noteq> t"
  proof
    assume "N = t"
    then have "2000 * c = t + n * (2 * t)"
      by (simp add: N_def algebra_simps)
    then have "2000 * c mod (2 * t) = t"
      using assms(1) by simp
    with assms(2) show False
      by simp
  qed
  moreover have "N \<noteq> - t"
  proof
    assume "N = - t"
    then have "2000 * c = t + (n - 1) * (2 * t)"
      by (simp add: N_def algebra_simps)
    then have "2000 * c mod (2 * t) = t"
      using assms(1) by simp
    with assms(2) show False
      by simp
  qed
  ultimately have "\<bar>N\<bar> \<le> t - 1"
    using le by linarith
  then have "\<bar>rat_of_int N\<bar> \<le> of_int t - 1"
    by (metis of_int_abs of_int_le_iff of_int_diff of_int_1)
  then have "2 * of_int t * \<bar>x - of_int n\<bar> \<le> of_int t - 1"
    using assms(1) by (simp add: N abs_mult)
  then have "\<bar>x - of_int n\<bar> \<le> (of_int t - 1) / (2 * of_int t)"
    using assms(1) by (simp add: field_simps)
  also have "(rat_of_int t - 1) / (2 * of_int t) = 1 / 2 - 1 / (2 * of_int t)"
    using assms(1) by (simp add: field_simps)
  finally show ?thesis
    unfolding n_def x_def by linarith
qed

lemma success_rate_exact:
  assumes "0 \<le> c" and "c \<le> t" and "0 < t" and "t \<le> 10 ^ 12"
    and "2000 * c mod (2 * t) \<noteq> t"
  shows "py_round (float_mul (true_divide c t) 100) 1 = binary64 (exact_success_rate c t)"
proof -
  define m where "m = float_mul (true_divide c t) 100"
  define x :: rat where "x = 1000 * of_int c / of_int t"
  define n where "n = round_half_even x"
  have "\<bar>m - 100 * of_int c / of_int t\<bar> \<le> 201 / 2 ^ 53"
    unfolding m_def using assms(1-3) by (rule rate_error)
  then have m: "\<bar>m * 10 - x\<bar> \<le> 2010 / 2 ^ 53"
    unfolding x_def by linarith
  have gap: "\<bar>of_int n - x\<bar> \<le> 1 / 2 - 1 / (2 * of_int t)"
    unfolding n_def x_def using assms(3,5) by (rule round_half_even_gap)
  have "rat_of_int t \<le> 10 ^ 12"
    using assms(4) by (metis of_int_le_iff of_int_numeral of_int_power)
  then have "1 / (2 * 10 ^ 12) \<le> 1 / (2 * rat_of_int t)"
    using assms(3) by (simp add: field_simps)
  moreover have "2010 / 2 ^ 53 < 1 / (2 * 10 ^ 12 :: rat)"
    by simp
  ultimately have "2010 / 2 ^ 53 < 1 / (2 * rat_of_int t)"
    by linarith
  with m gap have "of_int n - 1 / 2 < m * 10" "m * 10 < of_int n + 1 / 2"
    by linarith+
  then have n: "round_half_even (m * 10) = n"
    by (rule round_half_even_unique)
  have e: "exact_success_rate c t = of_int n / 10"
    by (simp add: exact_success_rate_def n_def x_def)
  have "py_round m 1 = binary64 (of_int n / 10)"
    by (simp add: py_round_def n)
  then show ?thesis
    unfolding e m_def .
qed

subsection \<open>Sums over the rows of a user\<close>

lemma user_sums_bounds:
  "stats_invariant tbl \<Longrightarrow>
     0 \<le> sum_list (map correct_answers (filter P tbl))
     \<and> sum_list (map correct_answers (filter P tbl)) \<le> sum_list (map total_answers (filter P tbl))"
  by (induction tbl) (auto simp: stats_invariant_def)

lemma py_round_zero: "py_round 0 n = 0"
  by (simp add: py_round_def round_half_even_def binary64_def)

lemma user_sums_record_answer:
  assumes "wf_stats tbl" and "record_answer now uid wid c tbl = Inr tbl'"
  shows "sum_list (map total_answers (filter (\<lambda>r. s_user_id r = uid) tbl'))
           = sum_list (map total_answers (filter (\<lambda>r. s_user_id r = uid) tbl)) + 1
       \<and> sum_list (map correct_answers (filter (\<lambda>r. s_user_id r = uid) tbl'))
           = sum_list (map correct_answers (filter (\<lambda>r. s_user_id r = uid) tbl))
               + (if c then 1 else 0)
       \<and> filter (\<lambda>r. s_user_id r = uid) tbl' \<noteq> []"
proof (cases "select_user_stat tbl uid wid")
  case Nil
  from record_answer_insert [OF Nil, of now c] assms(2) show ?thesis
    by auto
next
  case (Cons r rs)
  let ?rows = "filter (\<lambda>r. s_user_id r = uid) tbl"
  let ?c = "correct_answers r + (if c then 1 else 0)"
  let ?t = "total_answers r + 1"
  have tbl': "tbl' = update_user_stat ?c ?t now uid wid tbl"
    using record_answer_update [OF Cons, of now c] assms(2) by simp
  have r: "r \<in> set tbl" "stat_key r = (uid, wid)"
    using select_user_stat_mem [OF Cons] by simp_all
  then have mem: "r \<in> set ?rows"
    by (simp add: stat_key_def)
  have dist: "distinct (map stat_key ?rows)"
    using assms(1) by (simp add: wf_stats_def distinct_map_filter)
  have rows': "filter (\<lambda>r. s_user_id r = uid) tbl' = update_user_stat ?c ?t now uid wid ?rows"
    by (simp add: tbl' user_rows_update)
  from mem have "?rows \<noteq> []"
    by (metis empty_iff empty_set)
  then have "update_user_stat ?c ?t now uid wid ?rows \<noteq> []"
    unfolding update_user_stat_def by (simp only: map_is_Nil_conv not_False_eq_True)
  then show ?thesis
    using sum_update [OF dist mem r(2), of ?c ?t now] rows' by simp
qed

lemma record_answers_sums:
  assumes "wf_stats tbl"
  shows "\<exists>tbl'. record_answers uid evs tbl = Inr tbl' \<and> wf_stats tbl'
           \<and> sum_list (map total_answers (filter (\<lambda>r. s_user_id r = uid) tbl'))
               = sum_list (map total_answers (filter (\<lambda>r. s_user_id r = uid) tbl))
                   + int (length evs)
           \<and> sum_list (map correct_answers (filter (\<lambda>r. s_user_id r = uid) tbl'))
               = sum_list (map correct_answers (filter (\<lambda>r. s_user_id r = uid) tbl))
                   + int (length (filter (\<lambda>(now, wid, c). c) evs))
           \<and> (evs \<noteq> [] \<longrightarrow> filter (\<lambda>r. s_user_id r = uid) tbl' \<noteq> [])"
  using assms
proof (induction evs arbitrary: tbl)
  case Nil
  then show ?case by simp
next
  case (Cons ev evs)
  obtain now wid c where ev: "ev = (now, wid, c)"
    by (cases ev) auto
  from record_answer_effect [OF Cons.prems, of now uid wid c] obtain tbl1 where
    1: "record_answer now uid wid c tbl = Inr tbl1" "wf_stats tbl1"
    by blast
  note s1 = user_sums_record_answer [OF Cons.prems 1(1)]
  from Cons.IH [OF 1(2)] obtain tbl' where
    2: "record_answers uid evs tbl1 = Inr tbl'" "wf_stats tbl'"
      "sum_list (map total_answers (filter (\<lambda>r. s_user_id r = uid) tbl'))
         = sum_list (map total_answers (filter (\<lambda>r. s_user_id r = uid) tbl1))
             + int (length evs)"
      "sum_list (map correct_answers (filter (\<lambda>r. s_user_id r = uid) tbl'))
         = sum_list (map correct_answers (filter (\<lambda>r. s_user_id r = uid) tbl1))
             + int (length (filter (\<lambda>(now, wid, c). c) evs))"
      "evs \<noteq> [] \<longrightarrow> filter (\<lambda>r. s_user_id r = uid) tbl' \<noteq> []"
    by blast
  have ne: "filter (\<lambda>r. s_user_id r = uid) tbl' \<noteq> []"
  proof (cases evs)
    case Nil
    then show ?thesis using 2(1) s1 by simp
  next
    case (Cons a list)
    then show ?thesis using 2(5) by simp
  qed
  have "record_answers uid (ev # evs) tbl = Inr tbl'"
    using 1(1) 2(1) ev by simp
  then show ?case
    using 2(2-4) s1 ne ev by (intro exI [of _ tbl']) auto
qed

lemma success_rate_3_of_5: "py_round (float_mul (true_divide 3 5) 100) 1 = 60"
  by code_simp

lemma success_rate_23_of_80: "py_round (float_mul (true_divide 23 80) 100) 1 = binary64 (287 / 10)"
  by code_simp

lemma binary64_287_288: "binary64 (287 / 10) \<noteq> binary64 (288 / 10)"
  by code_simp

lemma exact_success_rate_23_of_80: "exact_success_rate 23 80 = 288 / 10"
  by code_simp

lemma get_user_stats_no_rows:
  "filter (\<lambda>r. s_user_id r = uid) tbl = [] \<Longrightarrow>
     get_user_stats tbl uid = \<lparr>total_correct = 0, total_questions = 0, success_rate = 0\<rparr>"
  by (simp add: get_user_stats_def sql_sum_def)

lemma get_user_stats_rows:
  "filter (\<lambda>r. s_user_id r = uid) tbl \<noteq> [] \<Longrightarrow>
     get_user_stats tbl uid =
       \<lparr>total_correct = sum_list (map correct_answers (filter (\<lambda>r. s_user_id r = uid) tbl)),
        total_questions = sum_list (map total_answers (filter (\<lambda>r. s_user_id r = uid) tbl)),
        success_rate =
          py_round
            (if sum_list (map total_answers (filter (\<lambda>r. s_user_id r = uid) tbl)) > 0
             then float_mul
                    (true_divide
                       (sum_list (map correct_answers (filter (\<lambda>r. s_user_id r = uid) tbl)))
                       (sum_list (map total_answers (filter (\<lambda>r. s_user_id r = uid) tbl))))
                    100
             else 0) 1\<rparr>"
  by (simp add: get_user_stats_def sql_sum_def Let_def)

text \<open>
  C5 (amended). For every user, \<^verbatim>\<open>get_user_stats\<close> returns zeros when the user has no row
  in \<^verbatim>\<open>user_stats\<close>, and otherwise the sums of \<^verbatim>\<open>correct_answers\<close> and \<^verbatim>\<open>total_answers\<close>
  over the rows of the user. The rate is \<^verbatim>\<open>round(total_correct / total_questions * 100, 1)\<close>
  in floating point, and \<open>0.0\<close> when the total is not positive. When every row has
  \<open>0 \<le> correct_answers \<le> total_answers\<close> and the total is positive, the rate is the float
  nearest to a number \<open>k / 10\<close> that is within \<open>1 / 20 + 201 / 2 ^ 53\<close> of the exact
  percentage; and for a total of at most \<open>10 ^ 12\<close> it is the float nearest to the exact
  percentage rounded to one decimal, provided that the exact percentage is not halfway
  between two numbers with one decimal (\<open>2000 * total_correct\<close> is not an odd multiple
  of \<open>total_questions\<close>). After five answers of a user who had no row, three of them
  correct, the report is 3 of 5 and \<open>60.0\<close>.
\<close>

theorem get_user_stats_report:
  "let rows = filter (\<lambda>r. s_user_id r = uid) tbl;
       tc = sum_list (map correct_answers rows);
       tq = sum_list (map total_answers rows);
       report = get_user_stats tbl uid
   in (rows = [] \<longrightarrow>
         report = \<lparr>total_correct = 0, total_questions = 0, success_rate = 0\<rparr>)
    \<and> (rows \<noteq> [] \<longrightarrow> total_correct report = tc \<and> total_questions report = tq)
    \<and> (rows \<noteq> [] \<and> tq \<le> 0 \<longrightarrow> success_rate report = 0)
    \<and> (rows \<noteq> [] \<and> 0 < tq \<longrightarrow>
         success_rate report = py_round (float_mul (true_divide tc tq) 100) 1)
    \<and> (rows \<noteq> [] \<and> stats_invariant tbl \<and> 0 < tq \<longrightarrow>
         (\<exists>k. success_rate report = binary64 (of_int k / 10)
            \<and> \<bar>rat_of_int k / 10 - 100 * of_int tc / of_int tq\<bar> \<le> 1 / 20 + 201 / 2 ^ 53))
    \<and> (rows \<noteq> [] \<and> stats_invariant tbl \<and> 0 < tq \<and> tq \<le> 10 ^ 12
         \<and> 2000 * tc mod (2 * tq) \<noteq> tq \<longrightarrow>
         success_rate report = binary64 (exact_success_rate tc tq))
    \<and> (wf_stats tbl \<and> rows = [] \<and> length evs = 5
         \<and> length (filter (\<lambda>(now, word_id, is_correct). is_correct) evs) = 3 \<longrightarrow>
         (\<exists>tbl'. record_answers uid evs tbl = Inr tbl'
            \<and> get_user_stats tbl' uid
                = \<lparr>total_correct = 3, total_questions = 5, success_rate = 60\<rparr>))"
proof -
  let ?rows = "filter (\<lambda>r. s_user_id r = uid) tbl"
  let ?tc = "sum_list (map correct_answers ?rows)"
  let ?tq = "sum_list (map total_answers ?rows)"
  let ?report = "get_user_stats tbl uid"
  note rep = get_user_stats_rows [of uid tbl]
  have zero: "?report = \<lparr>total_correct = 0, total_questions = 0, success_rate = 0\<rparr>"
    if "?rows = []"
    using that by (rule get_user_stats_no_rows)
  have sums: "total_correct ?report = ?tc \<and> total_questions ?report = ?tq" if "?rows \<noteq> []"
    using rep [OF that] by simp
  have nonpos: "success_rate ?report = 0" if "?rows \<noteq> []" "?tq \<le> 0"
    using rep [OF that(1)] that(2) by (simp add: py_round_zero)
  have rate: "success_rate ?report = py_round (float_mul (true_divide ?tc ?tq) 100) 1"
    if "?rows \<noteq> []" "0 < ?tq"
    using rep [OF that(1)] that(2) by simp
  have near: "\<exists>k. success_rate ?report = binary64 (of_int k / 10)
                \<and> \<bar>rat_of_int k / 10 - 100 * of_int ?tc / of_int ?tq\<bar> \<le> 1 / 20 + 201 / 2 ^ 53"
    if "?rows \<noteq> []" "stats_invariant tbl" "0 < ?tq"
  proof -
    from user_sums_bounds [OF that(2)] have "0 \<le> ?tc" "?tc \<le> ?tq"
      by blast+
    from success_rate_near [OF this that(3)] show ?thesis
      unfolding rate [OF that(1,3)] .
  qed
  have exact: "success_rate ?report = binary64 (exact_success_rate ?tc ?tq)"
    if "?rows \<noteq> []" "stats_invariant tbl" "0 < ?tq" "?tq \<le> 10 ^ 12"
      "2000 * ?tc mod (2 * ?tq) \<noteq> ?tq"
  proof -
    from user_sums_bounds [OF that(2)] have "0 \<le> ?tc" "?tc \<le> ?tq"
      by blast+
    from success_rate_exact [OF this that(3,4,5)] show ?thesis
      unfolding rate [OF that(1,3)] .
  qed
  have five: "\<exists>tbl'. record_answers uid evs tbl = Inr tbl'
                \<and> get_user_stats tbl' uid
                    = \<lparr>total_correct = 3, total_questions = 5, success_rate = 60\<rparr>"
    if "wf_stats tbl" "?rows = []" "length evs = 5"
      "length (filter (\<lambda>(now, word_id, is_correct). is_correct) evs) = 3"
  proof -
    note h = that
    from record_answers_sums [OF h(1), of uid evs] obtain tbl' where
      r: "record_answers uid evs tbl = Inr tbl'"
      and t: "sum_list (map total_answers (filter (\<lambda>r. s_user_id r = uid) tbl')) = 5"
      and c: "sum_list (map correct_answers (filter (\<lambda>r. s_user_id r = uid) tbl')) = 3"
      and n: "filter (\<lambda>r. s_user_id r = uid) tbl' \<noteq> []"
      using h(2,3,4) by auto
    have "get_user_stats tbl' uid
            = \<lparr>total_correct = 3, total_questions = 5, success_rate = 60\<rparr>"
      unfolding get_user_stats_rows [OF n] t c using success_rate_3_of_5 by simp
    with r show ?thesis
      by blast
  qed
  show ?thesis
    unfolding Let_def
    using zero sums nonpos rate near exact five by blast
qed

theorem get_user_stats_report_witness:
  "get_user_stats [] 7 = \<lparr>total_correct = 0, total_questions = 0, success_rate = 0\<rparr>
   \<and> (\<exists>tbl'. record_answers 7
                [(1, 3, True), (2, 4, False), (3, 3, True), (4, 5, True), (5, 4, False)] []
                = Inr tbl'
          \<and> get_user_stats tbl' 7
              = \<lparr>total_correct = 3, total_questions = 5, success_rate = 60\<rparr>)
   \<and> total_correct (get_user_stats [mk_stat 1 7 3 1 3] 7) = 1
   \<and> total_questions (get_user_stats [mk_stat 1 7 3 1 3] 7) = 3
   \<and> success_rate (get_user_stats [mk_stat 1 7 3 1 3] 7)
       = py_round (float_mul (true_divide 1 3) 100) 1
   \<and> (\<exists>k. success_rate (get_user_stats [mk_stat 1 7 3 1 3] 7) = binary64 (of_int k / 10)
          \<and> \<bar>rat_of_int k / 10 - 100 * 1 / 3\<bar> \<le> 1 / 20 + 201 / 2 ^ 53)
   \<and> success_rate (get_user_stats [mk_stat 1 7 3 1 3] 7) = binary64 (exact_success_rate 1 3)
   \<and> success_rate (get_user_stats [mk_stat 1 7 3 0 0] 7) = 0"
proof -
  note r = get_user_stats_report [of 7 "[mk_stat 1 7 3 1 3]" "[]", unfolded Let_def]
  have near: "\<exists>k. success_rate (get_user_stats [mk_stat 1 7 3 1 3] 7) = binary64 (of_int k / 10)
                \<and> \<bar>rat_of_int k / 10 - 100 * 1 / 3\<bar> \<le> 1 / 20 + 201 / 2 ^ 53"
    using r [THEN conjunct2, THEN conjunct2, THEN conjunct2, THEN conjunct2, THEN conjunct1]
    by (simp add: mk_stat_def stats_invariant_def)
  have rest:
    "get_user_stats [] 7 = \<lparr>total_correct = 0, total_questions = 0, success_rate = 0\<rparr>
     \<and> (\<exists>tbl'. record_answers 7
                  [(1, 3, True), (2, 4, False), (3, 3, True), (4, 5, True), (5, 4, False)] []
                  = Inr tbl'
            \<and> get_user_stats tbl' 7
                = \<lparr>total_correct = 3, total_questions = 5, success_rate = 60\<rparr>)
     \<and> total_correct (get_user_stats [mk_stat 1 7 3 1 3] 7) = 1
     \<and> total_questions (get_user_stats [mk_stat 1 7 3 1 3] 7) = 3
     \<and> success_rate (get_user_stats [mk_stat 1 7 3 1 3] 7)
         = py_round (float_mul (true_divide 1 3) 100) 1
     \<and> success_rate (get_user_stats [mk_stat 1 7 3 1 3] 7) = binary64 (exact_success_rate 1 3)
     \<and> success_rate (get_user_stats [mk_stat 1 7 3 0 0] 7) = 0"
    using get_user_stats_report [of 7 "[]"
        "[(1, 3, True), (2, 4, False), (3, 3, True), (4, 5, True), (5, 4, False)]"]
      get_user_stats_report [of 7 "[mk_stat 1 7 3 1 3]" "[]"]
      get_user_stats_report [of 7 "[mk_stat 1 7 3 0 0]" "[]"]
    by (simp add: Let_def mk_stat_def stats_invariant_def wf_stats_def)
  from near rest show ?thesis
    by blast
qed

text \<open>
  C5 as stated fails: the rate is not always the exact percentage rounded to one decimal.
  For 23 correct answers of 80 the percentage is 28.75, which rounds to 28.8, also when
  \<^verbatim>\<open>100 * total_correct / total_questions\<close> is computed in floating point in this order.
  The code divides first: \<^verbatim>\<open>23 / 80\<close> is not a binary fraction, the product with 100 is
  the float just below 28.75, and \<^verbatim>\<open>get_user_stats\<close> reports 28.7.
\<close>

theorem get_user_stats_rounding_counterexample:
  "total_correct (get_user_stats [mk_stat 1 7 3 23 80] 7) = 23
   \<and> total_questions (get_user_stats [mk_stat 1 7 3 23 80] 7) = 80
   \<and> success_rate (get_user_stats [mk_stat 1 7 3 23 80] 7) = binary64 (287 / 10)
   \<and> exact_success_rate 23 80 = 288 / 10
   \<and> py_round (true_divide (100 * 23) 80) 1 = binary64 (288 / 10)
   \<and> binary64 (287 / 10) < 287 / 10
   \<and> 287 / 10 < binary64 (288 / 10)"
  by code_simp

end
